theory Spec2Isabelle
  imports Main "HOL-Library.Word"
begin

unbundle bit_operations_syntax

section \<open>The Hyperspace master: data model\<close>

text \<open>
  The development embeds \<^verbatim>\<open>Hyperspace::Master\<close> (the coordination service whose
  methods are \<^verbatim>\<open>Master::Open\<close>, \<^verbatim>\<open>Master::Lock\<close>, \<^verbatim>\<open>Master::ReleaseLock\<close>, ...).
  The master is a C++ object guarded by mutexes; every method is modelled as one atomic
  function from the master's state to its new state and the response handed to the
  callback. Calls that end the process are values of type \<open>fatal\<close>.
\<close>

type_synonym uint32 = "32 word"
type_synonym uint64 = "64 word"

text \<open>
  Session, handle and event ids are 64-bit counters in the source
  (\<^verbatim>\<open>mNextSessionId\<close>, \<^verbatim>\<open>mNextHandleNumber\<close>, \<^verbatim>\<open>mNextEventId\<close>); they are used as keys
  only and are modelled as \<open>nat\<close>. The lock generation is arithmetic data and keeps its
  width.
\<close>

text \<open>
  \<open>ProcessExit\<close> is \<^verbatim>\<open>exit(1)\<close>, \<open>AssertionFailed\<close> a failed \<^verbatim>\<open>assert\<close>, and
  \<open>InvalidPointer\<close> the dereference of a handle's node pointer or of a handle object
  that the state does not hold (no method of the master produces such a state).
\<close>

datatype fatal = ProcessExit | AssertionFailed | InvalidPointer

datatype errno =
  ENOTDIR | ENAMETOOLONG | ENOENT | EACCES | EPERM | EEXIST | ENOATTR | EOTHER nat

datatype error_code =
    HYPERSPACE_EXPIRED_SESSION
  | HYPERSPACE_INVALID_HANDLE
  | HYPERSPACE_FILE_EXISTS
  | HYPERSPACE_BAD_PATHNAME
  | HYPERSPACE_PERMISSION_DENIED
  | HYPERSPACE_ATTR_NOT_FOUND
  | HYPERSPACE_IO_ERROR
  | HYPERSPACE_MODE_RESTRICTION

datatype lock_status = LOCK_STATUS_GRANTED | LOCK_STATUS_BUSY | LOCK_STATUS_PENDING

datatype response =
    ResponseError error_code
  | ResponseOk
  | ResponseOpen nat bool
  | ResponseAttrGet "8 word list"
  | ResponseExists bool
  | ResponseLock lock_status
  | ResponseLockGranted lock_status uint64

subsection \<open>Constants of headers that are not among the sources\<close>

text \<open>
  Modelled from the spec: the headers declaring the lock modes, the open flags and the
  event masks are not among the sources. The spec names the modes none, shared and
  exclusive, the flags CREATE, EXCL, READ, WRITE, LOCK, TEMP and the seven event kinds;
  the code writes the mode none as \<^verbatim>\<open>0\<close> and tests flags and masks with \<^verbatim>\<open>&\<close>, so
  the modes are distinct non-zero values and every flag and mask is a single bit.
\<close>

definition LOCK_MODE_SHARED :: uint32 where "LOCK_MODE_SHARED = 1"
definition LOCK_MODE_EXCLUSIVE :: uint32 where "LOCK_MODE_EXCLUSIVE = 2"

definition OPEN_FLAG_READ :: uint32 where "OPEN_FLAG_READ = 0x01"
definition OPEN_FLAG_WRITE :: uint32 where "OPEN_FLAG_WRITE = 0x02"
definition OPEN_FLAG_LOCK :: uint32 where "OPEN_FLAG_LOCK = 0x04"
definition OPEN_FLAG_CREATE :: uint32 where "OPEN_FLAG_CREATE = 0x08"
definition OPEN_FLAG_EXCL :: uint32 where "OPEN_FLAG_EXCL = 0x10"
definition OPEN_FLAG_TEMP :: uint32 where "OPEN_FLAG_TEMP = 0x20"

definition EVENT_MASK_ATTR_SET :: uint32 where "EVENT_MASK_ATTR_SET = 0x01"
definition EVENT_MASK_ATTR_DEL :: uint32 where "EVENT_MASK_ATTR_DEL = 0x02"
definition EVENT_MASK_CHILD_NODE_ADDED :: uint32 where "EVENT_MASK_CHILD_NODE_ADDED = 0x04"
definition EVENT_MASK_CHILD_NODE_REMOVED :: uint32 where "EVENT_MASK_CHILD_NODE_REMOVED = 0x08"
definition EVENT_MASK_LOCK_ACQUIRED :: uint32 where "EVENT_MASK_LOCK_ACQUIRED = 0x10"
definition EVENT_MASK_LOCK_RELEASED :: uint32 where "EVENT_MASK_LOCK_RELEASED = 0x20"
definition EVENT_MASK_LOCK_GRANTED :: uint32 where "EVENT_MASK_LOCK_GRANTED = 0x40"

lemmas lock_mode_defs = LOCK_MODE_SHARED_def LOCK_MODE_EXCLUSIVE_def

lemmas open_flag_defs =
  OPEN_FLAG_READ_def OPEN_FLAG_WRITE_def OPEN_FLAG_LOCK_def
  OPEN_FLAG_CREATE_def OPEN_FLAG_EXCL_def OPEN_FLAG_TEMP_def

lemmas event_mask_defs =
  EVENT_MASK_ATTR_SET_def EVENT_MASK_ATTR_DEL_def EVENT_MASK_CHILD_NODE_ADDED_def
  EVENT_MASK_CHILD_NODE_REMOVED_def EVENT_MASK_LOCK_ACQUIRED_def
  EVENT_MASK_LOCK_RELEASED_def EVENT_MASK_LOCK_GRANTED_def

subsection \<open>Events and notifications\<close>

text \<open>
  Modelled from the spec: the event classes (\<^verbatim>\<open>Event.h\<close>) are not among the sources.
  An event has an id, a kind with its payload, and a notification counter;
  \<^verbatim>\<open>GetMask\<close> is the mask of the kind and \<^verbatim>\<open>IncrementNotificationCount\<close> adds one to
  the counter. A notification pairs a handle id with the event it refers to.
\<close>

datatype event_body =
    EventNamed nat uint32 string
  | EventLockAcquired nat uint32
  | EventLockGranted nat uint32 uint64
  | EventLockReleased nat

record HyperspaceEvent =
  body :: event_body
  notificationCount :: nat

fun body_mask :: "event_body \<Rightarrow> uint32" where
  "body_mask (EventNamed i m s) = m"
| "body_mask (EventLockAcquired i m) = EVENT_MASK_LOCK_ACQUIRED"
| "body_mask (EventLockGranted i m g) = EVENT_MASK_LOCK_GRANTED"
| "body_mask (EventLockReleased i) = EVENT_MASK_LOCK_RELEASED"

definition GetMask :: "HyperspaceEvent \<Rightarrow> uint32" where
  "GetMask ev = body_mask (body ev)"

definition new_event :: "event_body \<Rightarrow> HyperspaceEvent" where
  "new_event b = \<lparr>body = b, notificationCount = 0\<rparr>"

definition IncrementNotificationCount :: "HyperspaceEvent \<Rightarrow> HyperspaceEvent" where
  "IncrementNotificationCount ev = ev\<lparr>notificationCount := notificationCount ev + 1\<rparr>"

datatype notification = Notification nat event_body

subsection \<open>Sessions, handles, nodes\<close>

text \<open>
  Modelled from the spec: \<^verbatim>\<open>SessionData.h\<close> is not among the sources. A session holds
  its id, a lease-expiry deadline, the set of its open handle ids (a \<^verbatim>\<open>set<uint64_t>\<close>,
  iterated in ascending order by \<^verbatim>\<open>RemoveExpiredSessions\<close>), an ordered queue of pending
  notifications and an expired flag.
\<close>

record SessionData =
  sessId :: nat
  expireTime :: nat
  expired :: bool
  handles :: "nat list"
  notifications :: "notification list"

definition new_SessionData :: "nat \<Rightarrow> nat \<Rightarrow> nat \<Rightarrow> SessionData" where
  "new_SessionData now lease sid =
     \<lparr>sessId = sid, expireTime = now + lease, expired = False,
      handles = [], notifications = []\<rparr>"

definition session_AddHandle :: "nat \<Rightarrow> SessionData \<Rightarrow> SessionData" where
  "session_AddHandle h s =
     (if h \<in> set (handles s) then s else s\<lparr>handles := insort h (handles s)\<rparr>)"

definition session_AddNotification :: "notification \<Rightarrow> SessionData \<Rightarrow> SessionData" where
  "session_AddNotification n s = s\<lparr>notifications := notifications s @ [n]\<rparr>"

definition Expire :: "SessionData \<Rightarrow> SessionData" where
  "Expire s = s\<lparr>expired := True\<rparr>"

definition IsExpired :: "nat \<Rightarrow> SessionData \<Rightarrow> bool" where
  "IsExpired now s = (expireTime s < now)"

definition RenewLease :: "nat \<Rightarrow> nat \<Rightarrow> SessionData \<Rightarrow> SessionData option" where
  "RenewLease now lease s =
     (if expired s then None else Some (s\<lparr>expireTime := now + lease\<rparr>))"

text \<open>
  \<^verbatim>\<open>HandleData\<close>: the fields \<^verbatim>\<open>Master::CreateHandle\<close> and \<^verbatim>\<open>Master::Open\<close> assign.
  \<open>node\<close> is the name under which the node the handle points to is registered (a
  node is erased from the node map only when no handle is open on it) and
  \<open>sessionPtr\<close> the id of the owning session (a session is never erased from the
  session map).
\<close>

record HandleData =
  handleId :: nat
  node :: string
  openFlags :: uint32
  eventMask :: uint32
  sessionPtr :: nat
  locked :: bool

datatype LockRequest = LockRequest (req_handle: nat) (req_mode: uint32)

text \<open>
  \<^verbatim>\<open>NodeData\<close>: the fields the master reads and writes. Modelled from the spec:
  \<^verbatim>\<open>NodeData.h\<close> is not among the sources; the node's handle map is kept as the list
  of the ids of the handles open on it (in the order they were added),
  \<^verbatim>\<open>ReferenceCount\<close> is the number of open handles, and \<^verbatim>\<open>Close\<close> closes the
  backing descriptor.
\<close>

record NodeData =
  name :: string
  fd :: int
  lockGeneration :: uint64
  currentLockMode :: uint32
  sharedLockHandles :: "nat set"
  exclusiveLockHandle :: nat
  pendingLockRequests :: "LockRequest list"
  handleMap :: "nat list"
  ephemeral :: bool

definition new_NodeData :: "string \<Rightarrow> NodeData" where
  "new_NodeData nm =
     \<lparr>name = nm, fd = -1, lockGeneration = 0, currentLockMode = 0,
      sharedLockHandles = {}, exclusiveLockHandle = 0, pendingLockRequests = [],
      handleMap = [], ephemeral = False\<rparr>"

definition node_AddHandle :: "nat \<Rightarrow> NodeData \<Rightarrow> NodeData" where
  "node_AddHandle h n =
     (if h \<in> set (handleMap n) then n else n\<lparr>handleMap := handleMap n @ [h]\<rparr>)"

definition node_RemoveHandle :: "nat \<Rightarrow> NodeData \<Rightarrow> NodeData" where
  "node_RemoveHandle h n = n\<lparr>handleMap := removeAll h (handleMap n)\<rparr>"

definition ReferenceCount :: "NodeData \<Rightarrow> nat" where
  "ReferenceCount n = length (handleMap n)"

text \<open>
  The master. \<open>handleObjs\<close> holds the \<^verbatim>\<open>HandleData\<close> objects, keyed by their id (a
  \<^verbatim>\<open>HandleDataPtr\<close> is shared between \<^verbatim>\<open>mHandleMap\<close>, the node's handle map and local
  variables, and \<^verbatim>\<open>CreateHandle\<close> gives every object a fresh id); \<open>mHandleMap\<close> is the
  set of ids registered in the handle table. \<open>mSessionHeap\<close> holds the ids of the
  sessions the heap vector points to.
\<close>

record master =
  mBaseDir :: string
  mNextHandleNumber :: nat
  mNextSessionId :: nat
  mNextEventId :: nat
  mLeaseInterval :: nat
  mSessionMap :: "nat \<rightharpoonup> SessionData"
  mSessionHeap :: "nat list"
  handleObjs :: "nat \<rightharpoonup> HandleData"
  mHandleMap :: "nat set"
  mNodeMap :: "string \<rightharpoonup> NodeData"

definition init_master :: "nat \<Rightarrow> master" where
  "init_master lease =
     \<lparr>mBaseDir = ''/hyperspace'', mNextHandleNumber = 1, mNextSessionId = 1, mNextEventId = 1,
      mLeaseInterval = lease, mSessionMap = Map.empty, mSessionHeap = [],
      handleObjs = Map.empty, mHandleMap = {}, mNodeMap = Map.empty\<rparr>"

subsection \<open>The environment\<close>

text \<open>
  The master calls the file system and the clock. A call's answer is an input of the
  model: \<open>sys\<close> gives, for each system call and its arguments, what the call returns
  during one request (\<open>None\<close> or \<open>Inr\<close> for success, the \<^verbatim>\<open>errno\<close> otherwise).
  \<open>sys_open\<close> takes the flags \<^verbatim>\<open>O_RDWR\<close>, \<^verbatim>\<open>O_CREAT\<close>, \<^verbatim>\<open>O_EXCL\<close>;
  \<open>sys_stat\<close> returns the \<^verbatim>\<open>st_mode\<close> of the file; \<open>sys_fgetxattr_u64\<close> is
  \<^verbatim>\<open>Fgetxattr\<close> into a \<^verbatim>\<open>uint64_t\<close> and returns the length read and the value.
\<close>

record sys =
  sys_now :: nat
  sys_stat :: "string \<Rightarrow> errno + uint32"
  sys_open :: "string \<Rightarrow> bool \<times> bool \<times> bool \<Rightarrow> errno + nat"
  sys_close :: "int \<Rightarrow> errno option"
  sys_mkdir :: "string \<Rightarrow> errno option"
  sys_rmdir :: "string \<Rightarrow> errno option"
  sys_unlink :: "string \<Rightarrow> errno option"
  sys_exists :: "string \<Rightarrow> bool"
  sys_fgetxattr_u64 :: "int \<Rightarrow> string \<Rightarrow> errno + (nat \<times> uint64)"
  sys_fsetxattr_u64 :: "int \<Rightarrow> string \<Rightarrow> uint64 \<Rightarrow> errno option"
  sys_fgetxattr_size :: "int \<Rightarrow> string \<Rightarrow> errno + nat"
  sys_fgetxattr :: "int \<Rightarrow> string \<Rightarrow> nat \<Rightarrow> errno + 8 word list"
  sys_fsetxattr :: "int \<Rightarrow> string \<Rightarrow> 8 word list \<Rightarrow> errno option"
  sys_fremovexattr :: "int \<Rightarrow> string \<Rightarrow> errno option"

text \<open>
  \<^verbatim>\<open>S_IFDIR\<close> of \<^verbatim>\<open><sys/stat.h>\<close> (octal 0040000). The source tests
  \<^verbatim>\<open>st_mode & S_IFDIR\<close>, which is non-zero also for the file types whose code holds
  that bit (sockets and block devices).
\<close>

definition S_IFDIR :: uint32 where
  "S_IFDIR = 0x4000"

text \<open>
  Modelled from the spec: \<^verbatim>\<open>Master.h\<close>, which declares the default value of the
  \<^verbatim>\<open>waitForNotify\<close> parameters, is not among the sources; the spec has operations
  return by default as soon as the events are enqueued. The barrier blocks the calling
  thread and changes no state, so no result below depends on the value.
\<close>

definition default_waitForNotify :: bool where
  "default_waitForNotify = False"

section \<open>Sessions and handles\<close>

definition CreateSession :: "sys \<Rightarrow> master \<Rightarrow> master \<times> nat" where
  "CreateSession env st =
     (let sid = mNextSessionId st;
          sessionPtr = new_SessionData (sys_now env) (mLeaseInterval st) sid
      in (st\<lparr>mNextSessionId := sid + 1,
              mSessionMap := (mSessionMap st)(sid \<mapsto> sessionPtr),
              mSessionHeap := mSessionHeap st @ [sid]\<rparr>, sid))"

definition GetSessionData :: "master \<Rightarrow> nat \<Rightarrow> SessionData option" where
  "GetSessionData st sid = mSessionMap st sid"

text \<open>
  A method of a session object reached through a pointer: the object is the one the
  session map holds under the id.
\<close>

definition session_update ::
  "nat \<Rightarrow> (SessionData \<Rightarrow> SessionData) \<Rightarrow> (nat \<rightharpoonup> SessionData) \<Rightarrow> (nat \<rightharpoonup> SessionData)" where
  "session_update sid f sm = (case sm sid of None \<Rightarrow> sm | Some s \<Rightarrow> sm(sid \<mapsto> f s))"

definition RenewSessionLease :: "sys \<Rightarrow> master \<Rightarrow> nat \<Rightarrow> master \<times> error_code option" where
  "RenewSessionLease env st sid =
     (case mSessionMap st sid of
        None \<Rightarrow> (st, Some HYPERSPACE_EXPIRED_SESSION)
      | Some s \<Rightarrow>
          (case RenewLease (sys_now env) (mLeaseInterval st) s of
             None \<Rightarrow> (st, Some HYPERSPACE_EXPIRED_SESSION)
           | Some s' \<Rightarrow> (st\<lparr>mSessionMap := (mSessionMap st)(sid \<mapsto> s')\<rparr>, None)))"

definition CreateHandle :: "master \<Rightarrow> master \<times> nat" where
  "CreateHandle st =
     (let h = mNextHandleNumber st + 1;
          handlePtr = \<lparr>handleId = h, node = [], openFlags = 0, eventMask = 0,
                       sessionPtr = 0, locked = False\<rparr>
      in (st\<lparr>mNextHandleNumber := h,
              handleObjs := (handleObjs st)(h \<mapsto> handlePtr),
              mHandleMap := insert h (mHandleMap st)\<rparr>, h))"

definition GetHandleData :: "master \<Rightarrow> nat \<Rightarrow> HandleData option" where
  "GetHandleData st h = (if h \<in> mHandleMap st then handleObjs st h else None)"

definition RemoveHandleData :: "master \<Rightarrow> nat \<Rightarrow> (master \<times> HandleData) option" where
  "RemoveHandleData st h =
     (case GetHandleData st h of
        None \<Rightarrow> None
      | Some handlePtr \<Rightarrow> Some (st\<lparr>mHandleMap := mHandleMap st - {h}\<rparr>, handlePtr))"

section \<open>Errors and names\<close>

definition ReportError :: "errno \<Rightarrow> response" where
  "ReportError e =
     (if e = ENOTDIR \<or> e = ENAMETOOLONG \<or> e = ENOENT then ResponseError HYPERSPACE_BAD_PATHNAME
      else if e = EACCES \<or> e = EPERM then ResponseError HYPERSPACE_PERMISSION_DENIED
      else if e = EEXIST then ResponseError HYPERSPACE_FILE_EXISTS
      else if e = ENOATTR then ResponseError HYPERSPACE_ATTR_NOT_FOUND
      else ResponseError HYPERSPACE_IO_ERROR)"

text \<open>The assertion \<^verbatim>\<open>name[0] == '/' && name[strlen(name)-1] != '/'\<close>.\<close>

definition valid_name :: "string \<Rightarrow> bool" where
  "valid_name nm = (case nm of [] \<Rightarrow> False | c # cs \<Rightarrow> c = CHR ''/'' \<and> last nm \<noteq> CHR ''/'')"

text \<open>\<^verbatim>\<open>rfind("/")\<close>: the index of the last slash, \<open>None\<close> for \<^verbatim>\<open>npos\<close>.\<close>

fun rfind_slash :: "string \<Rightarrow> nat option" where
  "rfind_slash [] = None"
| "rfind_slash (c # cs) =
     (case rfind_slash cs of
        Some i \<Rightarrow> Some (Suc i)
      | None \<Rightarrow> if c = CHR ''/'' then Some 0 else None)"

text \<open>
  \<^verbatim>\<open>FindParentNode\<close>. With \<^verbatim>\<open>npos\<close> the source's \<^verbatim>\<open>unsigned int lastSlash\<close> is the
  largest value, \<^verbatim>\<open>substr(0, lastSlash)\<close> is the whole name and \<^verbatim>\<open>lastSlash+1\<close>
  wraps to \<^verbatim>\<open>0\<close>.
\<close>

definition FindParentNode :: "master \<Rightarrow> string \<Rightarrow> (NodeData \<times> string) option" where
  "FindParentNode st normalName =
     (case rfind_slash normalName of
        None \<Rightarrow>
          (case mNodeMap st normalName of
             None \<Rightarrow> None
           | Some parentNodePtr \<Rightarrow> Some (parentNodePtr, normalName))
      | Some lastSlash \<Rightarrow>
          if lastSlash > 0 then
            (case mNodeMap st (take lastSlash normalName) of
               None \<Rightarrow> None
             | Some parentNodePtr \<Rightarrow> Some (parentNodePtr, drop (lastSlash + 1) normalName))
          else None)"

section \<open>Event delivery\<close>

text \<open>
  The loop of \<^verbatim>\<open>DeliverEventNotifications\<close> over the node's handle map. The
  accumulator is the event (its counter), the session map and the local
  \<^verbatim>\<open>notifications\<close>. The call to the keep-alive handler hands the notification to the
  transport and is not part of the master's state.
\<close>

fun deliver_loop ::
  "(nat \<rightharpoonup> HandleData) \<Rightarrow> nat list \<Rightarrow>
   HyperspaceEvent \<times> (nat \<rightharpoonup> SessionData) \<times> nat \<Rightarrow>
   HyperspaceEvent \<times> (nat \<rightharpoonup> SessionData) \<times> nat" where
  "deliver_loop objs [] acc = acc"
| "deliver_loop objs (h # hs) (ev, sm, n) =
     (case objs h of
        None \<Rightarrow> deliver_loop objs hs (ev, sm, n)
      | Some hp \<Rightarrow>
          if eventMask hp AND GetMask ev \<noteq> 0 then
            deliver_loop objs hs
              (IncrementNotificationCount ev,
               session_update (sessionPtr hp)
                 (session_AddNotification (Notification h (body ev))) sm,
               n + 1)
          else deliver_loop objs hs (ev, sm, n))"

text \<open>
  The result is the new state, the event with its counter, and whether the caller
  entered \<^verbatim>\<open>WaitForNotifications\<close>.
\<close>

definition DeliverEventNotifications ::
  "master \<Rightarrow> NodeData \<Rightarrow> HyperspaceEvent \<Rightarrow> bool \<Rightarrow> master \<times> HyperspaceEvent \<times> bool" where
  "DeliverEventNotifications st nd eventPtr waitForNotify =
     (case deliver_loop (handleObjs st) (handleMap nd) (eventPtr, mSessionMap st, 0) of
        (ev', sm', n) \<Rightarrow> (st\<lparr>mSessionMap := sm'\<rparr>, ev', waitForNotify \<and> n \<noteq> 0))"

definition DeliverEventNotification ::
  "master \<Rightarrow> HandleData \<Rightarrow> HyperspaceEvent \<Rightarrow> bool \<Rightarrow> master \<times> bool" where
  "DeliverEventNotification st handlePtr eventPtr waitForNotify =
     (st\<lparr>mSessionMap :=
          session_update (sessionPtr handlePtr)
            (session_AddNotification (Notification (handleId handlePtr) (body eventPtr)))
            (mSessionMap st)\<rparr>,
      waitForNotify)"

text \<open>A handle's event mask selects the event.\<close>

definition selected :: "master \<Rightarrow> HyperspaceEvent \<Rightarrow> nat \<Rightarrow> bool" where
  "selected st ev h =
     (case handleObjs st h of None \<Rightarrow> False | Some hp \<Rightarrow> eventMask hp AND GetMask ev \<noteq> 0)"


text \<open>
  Creating an event takes the next event id (\<^verbatim>\<open>mNextEventId++\<close>) and delivers the
  event to the handles of a node; the state after the call is what callers go on with.
\<close>

definition emit :: "master \<Rightarrow> NodeData \<Rightarrow> (nat \<Rightarrow> event_body) \<Rightarrow> bool \<Rightarrow> master" where
  "emit st nd mk waitForNotify =
     fst (DeliverEventNotifications (st\<lparr>mNextEventId := mNextEventId st + 1\<rparr>) nd
            (new_event (mk (mNextEventId st))) waitForNotify)"

definition put_node :: "string \<Rightarrow> NodeData \<Rightarrow> master \<Rightarrow> master" where
  "put_node key nd st = st\<lparr>mNodeMap := (mNodeMap st)(key \<mapsto> nd)\<rparr>"

section \<open>The lock manager\<close>

text \<open>\<^verbatim>\<open>Master::LockHandle\<close>; the handle pointer is the id of the handle object.\<close>

definition LockHandle :: "master \<Rightarrow> nat \<Rightarrow> uint32 \<Rightarrow> fatal + master" where
  "LockHandle st h mode =
     (case handleObjs st h of
        None \<Rightarrow> Inl InvalidPointer
      | Some handlePtr \<Rightarrow>
          (case mNodeMap st (node handlePtr) of
             None \<Rightarrow> Inl InvalidPointer
           | Some nd \<Rightarrow>
               if mode = LOCK_MODE_SHARED then
                 Inr ((put_node (node handlePtr)
                         (nd\<lparr>sharedLockHandles :=
                               insert (handleId handlePtr) (sharedLockHandles nd)\<rparr>) st)
                        \<lparr>handleObjs := (handleObjs st)(h \<mapsto> handlePtr\<lparr>locked := True\<rparr>)\<rparr>)
               else if mode \<noteq> LOCK_MODE_EXCLUSIVE then Inl AssertionFailed
               else
                 Inr ((put_node (node handlePtr)
                         (nd\<lparr>exclusiveLockHandle := handleId handlePtr\<rparr>) st)
                        \<lparr>handleObjs := (handleObjs st)(h \<mapsto> handlePtr\<lparr>locked := True\<rparr>)\<rparr>)))"

definition LockHandleWithNotification :: "master \<Rightarrow> nat \<Rightarrow> uint32 \<Rightarrow> bool \<Rightarrow> fatal + master" where
  "LockHandleWithNotification st h mode waitForNotify =
     (case LockHandle st h mode of
        Inl f \<Rightarrow> Inl f
      | Inr st1 \<Rightarrow>
          (case handleObjs st1 h of
             None \<Rightarrow> Inl InvalidPointer
           | Some handlePtr \<Rightarrow>
               (case mNodeMap st1 (node handlePtr) of
                  None \<Rightarrow> Inl InvalidPointer
                | Some nd \<Rightarrow>
                    Inr (fst (DeliverEventNotification
                                (st1\<lparr>mNextEventId := mNextEventId st1 + 1\<rparr>) handlePtr
                                (new_event
                                   (EventLockGranted (mNextEventId st1) mode (lockGeneration nd)))
                                waitForNotify)))))"

text \<open>\<^verbatim>\<open>pendingLockRequests.push_back(LockRequest(handle, mode))\<close> on the node.\<close>

definition push_pending :: "master \<Rightarrow> string \<Rightarrow> NodeData \<Rightarrow> nat \<Rightarrow> uint32 \<Rightarrow> master" where
  "push_pending st key nd handle mode =
     put_node key
       (nd\<lparr>pendingLockRequests := pendingLockRequests nd @ [LockRequest handle mode]\<rparr>) st"

text \<open>The part of \<^verbatim>\<open>Master::Lock\<close> after ``at this point we're OK to acquire the lock''.\<close>

definition lock_acquire ::
  "sys \<Rightarrow> master \<Rightarrow> nat \<Rightarrow> HandleData \<Rightarrow> NodeData \<Rightarrow> uint32 \<Rightarrow> fatal + master \<times> response" where
  "lock_acquire env st handle handlePtr nd mode =
     (let notify = \<not> (mode = LOCK_MODE_SHARED \<and> sharedLockHandles nd \<noteq> {});
          nd1 = nd\<lparr>lockGeneration := lockGeneration nd + 1\<rparr>
      in case sys_fsetxattr_u64 env (fd nd1) ''lock.generation'' (lockGeneration nd1) of
           Some e \<Rightarrow> Inl ProcessExit
         | None \<Rightarrow>
             (case LockHandle (put_node (node handlePtr) (nd1\<lparr>currentLockMode := mode\<rparr>) st)
                     handle mode of
                Inl f \<Rightarrow> Inl f
              | Inr st2 \<Rightarrow>
                  (case mNodeMap st2 (node handlePtr) of
                     None \<Rightarrow> Inl InvalidPointer
                   | Some nd2 \<Rightarrow>
                       Inr (if notify
                            then emit st2 nd2 (\<lambda>i. EventLockAcquired i mode) default_waitForNotify
                            else st2,
                            ResponseLockGranted LOCK_STATUS_GRANTED (lockGeneration nd2)))))"

definition Lock ::
  "sys \<Rightarrow> master \<Rightarrow> nat \<Rightarrow> nat \<Rightarrow> uint32 \<Rightarrow> bool \<Rightarrow> fatal + master \<times> response" where
  "Lock env st sessionId handle mode tryAcquire =
     (case GetSessionData st sessionId of
        None \<Rightarrow> Inr (st, ResponseError HYPERSPACE_EXPIRED_SESSION)
      | Some sessionData \<Rightarrow>
          (case GetHandleData st handle of
             None \<Rightarrow> Inr (st, ResponseError HYPERSPACE_EXPIRED_SESSION)
           | Some handlePtr \<Rightarrow>
               if openFlags handlePtr AND OPEN_FLAG_LOCK = 0 then
                 Inr (st, ResponseError HYPERSPACE_MODE_RESTRICTION)
               else if openFlags handlePtr AND OPEN_FLAG_WRITE = 0 then
                 Inr (st, ResponseError HYPERSPACE_MODE_RESTRICTION)
               else
                 (case mNodeMap st (node handlePtr) of
                    None \<Rightarrow> Inl InvalidPointer
                  | Some nd \<Rightarrow>
                      if currentLockMode nd = LOCK_MODE_EXCLUSIVE then
                        (if tryAcquire then Inr (st, ResponseLock LOCK_STATUS_BUSY)
                         else Inr (push_pending st (node handlePtr) nd handle mode,
                                   ResponseLock LOCK_STATUS_PENDING))
                      else if currentLockMode nd = LOCK_MODE_SHARED
                              \<and> mode = LOCK_MODE_EXCLUSIVE then
                        (if tryAcquire then Inr (st, ResponseLock LOCK_STATUS_BUSY)
                         else Inr (push_pending st (node handlePtr) nd handle mode,
                                   ResponseLock LOCK_STATUS_PENDING))
                      else if currentLockMode nd = LOCK_MODE_SHARED
                              \<and> mode \<noteq> LOCK_MODE_SHARED then Inl AssertionFailed
                      else if currentLockMode nd = LOCK_MODE_SHARED
                              \<and> pendingLockRequests nd \<noteq> [] then
                        Inr (push_pending st (node handlePtr) nd handle mode,
                             ResponseLock LOCK_STATUS_PENDING)
                      else lock_acquire env st handle handlePtr nd mode)))"

text \<open>
  The \<^verbatim>\<open>do ... while\<close> loop of \<^verbatim>\<open>Master::ReleaseLock\<close>: it leaves the loop at the first
  request that is not shared or when the queue is empty, and collects the handles that
  \<^verbatim>\<open>GetHandleData\<close> still finds. The result is \<^verbatim>\<open>nextLockHandles\<close> and the queue left.
\<close>

fun dequeue_shared :: "master \<Rightarrow> LockRequest list \<Rightarrow> nat list \<times> LockRequest list" where
  "dequeue_shared st [] = ([], [])"
| "dequeue_shared st (lockreq # rest) =
     (if req_mode lockreq \<noteq> LOCK_MODE_SHARED then ([], lockreq # rest)
      else (case dequeue_shared st rest of
              (hs, rest') \<Rightarrow>
                ((case GetHandleData st (req_handle lockreq) of
                    None \<Rightarrow> [] | Some nextHandlePtr \<Rightarrow> [req_handle lockreq]) @ hs,
                 rest')))"

text \<open>
  The body of \<^verbatim>\<open>if (!pendingLockRequests.empty())\<close> up to the test of
  \<^verbatim>\<open>nextLockHandles\<close>: the result is \<^verbatim>\<open>nextMode\<close>, \<^verbatim>\<open>nextLockHandles\<close> and the queue left.
\<close>

definition dequeue_pending ::
  "master \<Rightarrow> LockRequest list \<Rightarrow> uint32 \<times> nat list \<times> LockRequest list" where
  "dequeue_pending st q =
     (case q of
        [] \<Rightarrow> (0, [], [])
      | frontLockReq # rest \<Rightarrow>
          if req_mode frontLockReq = LOCK_MODE_EXCLUSIVE then
            (LOCK_MODE_EXCLUSIVE,
             (case GetHandleData st (req_handle frontLockReq) of
                None \<Rightarrow> [] | Some nextHandlePtr \<Rightarrow> [req_handle frontLockReq]),
             rest)
          else (case dequeue_shared st q of (hs, rest') \<Rightarrow> (LOCK_MODE_SHARED, hs, rest')))"

text \<open>The \<^verbatim>\<open>for\<close> loop over \<^verbatim>\<open>nextLockHandles\<close>; \<open>hid\<close> is the releasing handle's id.\<close>

fun grant_loop :: "master \<Rightarrow> nat \<Rightarrow> nat list \<Rightarrow> uint32 \<Rightarrow> bool \<Rightarrow> fatal + master" where
  "grant_loop st hid [] nextMode waitForNotify = Inr st"
| "grant_loop st hid (n # ns) nextMode waitForNotify =
     (case handleObjs st n of
        None \<Rightarrow> Inl InvalidPointer
      | Some nextHandlePtr \<Rightarrow>
          if hid = handleId nextHandlePtr then Inl AssertionFailed
          else (case LockHandleWithNotification st n nextMode waitForNotify of
                  Inl f \<Rightarrow> Inl f
                | Inr st' \<Rightarrow> grant_loop st' hid ns nextMode waitForNotify))"

definition release_grant ::
  "sys \<Rightarrow> master \<Rightarrow> HandleData \<Rightarrow> NodeData \<Rightarrow> bool \<Rightarrow> fatal + master" where
  "release_grant env st handlePtr nd waitForNotify =
     (if pendingLockRequests nd = [] then Inr st
      else
        (case dequeue_pending st (pendingLockRequests nd) of
           (nextMode, nextLockHandles, rest) \<Rightarrow>
             let nd1 = nd\<lparr>pendingLockRequests := rest\<rparr> in
             if nextLockHandles = [] then Inr (put_node (node handlePtr) nd1 st)
             else
               let nd2 = nd1\<lparr>lockGeneration := lockGeneration nd1 + 1\<rparr> in
               (case sys_fsetxattr_u64 env (fd nd2) ''lock.generation'' (lockGeneration nd2) of
                  Some e \<Rightarrow> Inl ProcessExit
                | None \<Rightarrow>
                    (case grant_loop
                            (put_node (node handlePtr) (nd2\<lparr>currentLockMode := nextMode\<rparr>) st)
                            (handleId handlePtr) nextLockHandles nextMode waitForNotify of
                       Inl f \<Rightarrow> Inl f
                     | Inr st3 \<Rightarrow>
                         (case mNodeMap st3 (node handlePtr) of
                            None \<Rightarrow> Inl InvalidPointer
                          | Some nd3 \<Rightarrow>
                              Inr (emit st3 nd3 (\<lambda>i. EventLockAcquired i nextMode)
                                     waitForNotify))))))"

definition ReleaseLock :: "sys \<Rightarrow> master \<Rightarrow> nat \<Rightarrow> bool \<Rightarrow> fatal + master" where
  "ReleaseLock env st h waitForNotify =
     (case handleObjs st h of
        None \<Rightarrow> Inl InvalidPointer
      | Some handlePtr \<Rightarrow>
          (case mNodeMap st (node handlePtr) of
             None \<Rightarrow> Inl InvalidPointer
           | Some nd \<Rightarrow>
               if \<not> locked handlePtr then Inr st
               else if exclusiveLockHandle nd \<noteq> 0
                       \<and> handleId handlePtr \<noteq> exclusiveLockHandle nd then Inl AssertionFailed
               else if exclusiveLockHandle nd = 0
                       \<and> handleId handlePtr \<notin> sharedLockHandles nd then Inl AssertionFailed
               else
                 let nd1 = (if exclusiveLockHandle nd \<noteq> 0 then nd\<lparr>exclusiveLockHandle := 0\<rparr>
                            else nd\<lparr>sharedLockHandles :=
                                       sharedLockHandles nd - {handleId handlePtr}\<rparr>);
                     st1 = (put_node (node handlePtr) nd1 st)
                             \<lparr>handleObjs := (handleObjs st)(h \<mapsto> handlePtr\<lparr>locked := False\<rparr>)\<rparr>;
                     st2 = (if sharedLockHandles nd1 = {}
                            then emit st1 nd1 EventLockReleased waitForNotify else st1);
                     nd2 = nd1\<lparr>currentLockMode := 0\<rparr>
                 in release_grant env (put_node (node handlePtr) nd2 st2)
                      (handlePtr\<lparr>locked := False\<rparr>) nd2 waitForNotify))"

definition Release :: "sys \<Rightarrow> master \<Rightarrow> nat \<Rightarrow> nat \<Rightarrow> fatal + master \<times> response" where
  "Release env st sessionId handle =
     (case GetSessionData st sessionId of
        None \<Rightarrow> Inr (st, ResponseError HYPERSPACE_EXPIRED_SESSION)
      | Some sessionData \<Rightarrow>
          (case GetHandleData st handle of
             None \<Rightarrow> Inr (st, ResponseError HYPERSPACE_EXPIRED_SESSION)
           | Some handlePtr \<Rightarrow>
               (case ReleaseLock env st handle default_waitForNotify of
                  Inl f \<Rightarrow> Inl f
                | Inr st' \<Rightarrow> Inr (st', ResponseOk))))"


section \<open>The namespace\<close>

text \<open>
  Modelled from the spec: \<^verbatim>\<open>NodeData::Close\<close> is not among the sources; it closes the
  backing file descriptor. The descriptor is \<^verbatim>\<open>-1\<close> afterwards (\<^verbatim>\<open>Master::Open\<close>
  reopens a node whose \<^verbatim>\<open>fd\<close> is negative); the result is the \<^verbatim>\<open>errno\<close> of a failed
  \<^verbatim>\<open>close\<close>.
\<close>

definition node_Close :: "sys \<Rightarrow> NodeData \<Rightarrow> NodeData \<times> errno option" where
  "node_Close env nd =
     (if fd nd \<noteq> -1 then (nd\<lparr>fd := -1\<rparr>, sys_close env (fd nd)) else (nd, None))"

text \<open>
  \<^verbatim>\<open>Master::DestroyHandle\<close>; the result \<open>None\<close> is \<^verbatim>\<open>true\<close>, otherwise the \<^verbatim>\<open>errno\<close>
  that \<^verbatim>\<open>Close\<close> left.
\<close>

definition DestroyHandle ::
  "sys \<Rightarrow> master \<Rightarrow> nat \<Rightarrow> bool \<Rightarrow> fatal + master \<times> errno option" where
  "DestroyHandle env st h waitForNotify =
     (case handleObjs st h of
        None \<Rightarrow> Inl InvalidPointer
      | Some handlePtr \<Rightarrow>
          (case mNodeMap st (node handlePtr) of
             None \<Rightarrow> Inl InvalidPointer
           | Some nd \<Rightarrow>
               let nd1 = node_RemoveHandle (handleId handlePtr) nd in
               if ReferenceCount nd1 = 0 then
                 (case node_Close env nd1 of
                    (nd2, Some e) \<Rightarrow> Inr (put_node (node handlePtr) nd2 st, Some e)
                  | (nd2, None) \<Rightarrow>
                      let st2 = put_node (node handlePtr) nd2 st in
                      if ephemeral nd2 then
                        let st3 = (case FindParentNode st2 (name nd2) of
                                     None \<Rightarrow> st2
                                   | Some (parentNodePtr, childName) \<Rightarrow>
                                       emit st2 parentNodePtr
                                         (\<lambda>i. EventNamed i EVENT_MASK_CHILD_NODE_REMOVED childName)
                                         waitForNotify)
                        in Inr (st3\<lparr>mNodeMap := (mNodeMap st3)(name nd2 := None)\<rparr>, None)
                      else Inr (st2, None))
               else Inr (put_node (node handlePtr) nd1 st, None)))"

definition Close :: "sys \<Rightarrow> master \<Rightarrow> nat \<Rightarrow> nat \<Rightarrow> fatal + master \<times> response" where
  "Close env st sessionId handle =
     (case GetSessionData st sessionId of
        None \<Rightarrow> Inr (st, ResponseError HYPERSPACE_EXPIRED_SESSION)
      | Some sessionData \<Rightarrow>
          (case RemoveHandleData st handle of
             None \<Rightarrow> Inr (st, ResponseError HYPERSPACE_INVALID_HANDLE)
           | Some (st1, handlePtr) \<Rightarrow>
               (case DestroyHandle env st1 handle default_waitForNotify of
                  Inl f \<Rightarrow> Inl f
                | Inr (st2, Some e) \<Rightarrow> Inr (st2, ReportError e)
                | Inr (st2, None) \<Rightarrow> Inr (st2, ResponseOk))))"

text \<open>
  \<^verbatim>\<open>Master::Open\<close>, in the order of the source: the \<^verbatim>\<open>stat\<close> of the backing file
  (\<open>existed\<close> and whether the file is opened \<^verbatim>\<open>O_RDWR\<close>), the block that opens the
  file and creates the node record, and the creation of the handle.
\<close>

definition open_stat :: "sys \<Rightarrow> string \<Rightarrow> response + bool \<times> bool" where
  "open_stat env absName =
     (case sys_stat env absName of
        Inl e \<Rightarrow> if e = ENOENT then Inr (False, False) else Inl (ReportError e)
      | Inr st_mode \<Rightarrow> Inr (True, \<not> (st_mode AND S_IFDIR \<noteq> 0)))"

definition new_node :: "sys \<Rightarrow> string \<Rightarrow> uint32 \<Rightarrow> int \<Rightarrow> fatal + (response + NodeData)" where
  "new_node env nm flags fdn =
     (case sys_fgetxattr_u64 env fdn ''lock.generation'' of
        Inl e \<Rightarrow>
          if e = ENOATTR then
            (case sys_fsetxattr_u64 env fdn ''lock.generation'' 1 of
               Some e' \<Rightarrow> Inr (Inl (ReportError e'))
             | None \<Rightarrow>
                 Inr (Inr ((new_NodeData nm)
                             \<lparr>lockGeneration := 1,
                              ephemeral := (flags AND OPEN_FLAG_TEMP \<noteq> 0)\<rparr>)))
          else Inr (Inl (ReportError e))
      | Inr (len, g) \<Rightarrow>
          if len \<noteq> 8 then Inl AssertionFailed
          else Inr (Inr ((new_NodeData nm)
                           \<lparr>lockGeneration := g,
                            ephemeral := (flags AND OPEN_FLAG_TEMP \<noteq> 0)\<rparr>)))"

definition open_node ::
  "sys \<Rightarrow> master \<Rightarrow> string \<Rightarrow> uint32 \<Rightarrow> bool \<Rightarrow> bool \<Rightarrow> fatal + (response + master \<times> bool)" where
  "open_node env st nm flags existed rdwr =
     (if \<not> (case mNodeMap st nm of None \<Rightarrow> True | Some nd \<Rightarrow> fd nd < 0) then
        Inr (Inr (st, False))
      else if (case mNodeMap st nm of
                 None \<Rightarrow> False
               | Some nd \<Rightarrow> flags AND OPEN_FLAG_TEMP \<noteq> 0 \<and> existed \<and> \<not> ephemeral nd) then
        Inr (Inl (ResponseError HYPERSPACE_FILE_EXISTS))
      else
        (case sys_open env (mBaseDir st @ nm)
                (rdwr, flags AND OPEN_FLAG_CREATE \<noteq> 0, flags AND OPEN_FLAG_EXCL \<noteq> 0) of
           Inl e \<Rightarrow> Inr (Inl (ReportError e))
         | Inr fdn \<Rightarrow>
             (case mNodeMap st nm of
                Some nd \<Rightarrow> Inr (Inr (put_node nm (nd\<lparr>fd := int fdn\<rparr>) st, \<not> existed))
              | None \<Rightarrow>
                  (case new_node env nm flags (int fdn) of
                     Inl f \<Rightarrow> Inl f
                   | Inr (Inl r) \<Rightarrow> Inr (Inl r)
                   | Inr (Inr nd) \<Rightarrow>
                       Inr (Inr (put_node nm (nd\<lparr>fd := int fdn\<rparr>) st, \<not> existed))))))"

definition open_handle ::
  "master \<Rightarrow> nat \<Rightarrow> string \<Rightarrow> uint32 \<Rightarrow> uint32 \<Rightarrow> bool \<Rightarrow> fatal + master \<times> response" where
  "open_handle st sessionId nm flags evMask created =
     (case CreateHandle st of
        (st1, handle) \<Rightarrow>
          let st2 = st1\<lparr>handleObjs := (handleObjs st1)
                       (handle \<mapsto> \<lparr>handleId = handle, node = nm, openFlags = flags,
                                   eventMask = evMask, sessionPtr = sessionId,
                                   locked = False\<rparr>)\<rparr>;
              st3 = st2\<lparr>mSessionMap :=
                         session_update sessionId (session_AddHandle handle) (mSessionMap st2)\<rparr>;
              st4 = (if created then
                       (case FindParentNode st3 nm of
                          None \<Rightarrow> st3
                        | Some (parentNodePtr, childName) \<Rightarrow>
                            emit st3 parentNodePtr
                              (\<lambda>i. EventNamed i EVENT_MASK_CHILD_NODE_ADDED childName)
                              default_waitForNotify)
                     else st3)
          in (case mNodeMap st4 nm of
                None \<Rightarrow> Inl InvalidPointer
              | Some nd \<Rightarrow>
                  Inr (put_node nm (node_AddHandle handle nd) st4, ResponseOpen handle created)))"

definition Open ::
  "sys \<Rightarrow> master \<Rightarrow> nat \<Rightarrow> string \<Rightarrow> uint32 \<Rightarrow> uint32 \<Rightarrow> fatal + master \<times> response" where
  "Open env st sessionId nm flags evMask =
     (if \<not> valid_name nm then Inl AssertionFailed
      else
        (case GetSessionData st sessionId of
           None \<Rightarrow> Inr (st, ResponseError HYPERSPACE_EXPIRED_SESSION)
         | Some sessionData \<Rightarrow>
             if mNodeMap st nm \<noteq> None \<and> flags AND OPEN_FLAG_CREATE \<noteq> 0
                \<and> flags AND OPEN_FLAG_EXCL \<noteq> 0 then
               Inr (st, ResponseError HYPERSPACE_FILE_EXISTS)
             else
               (case open_stat env (mBaseDir st @ nm) of
                  Inl r \<Rightarrow> Inr (st, r)
                | Inr (existed, rdwr) \<Rightarrow>
                    (case open_node env st nm flags existed rdwr of
                       Inl f \<Rightarrow> Inl f
                     | Inr (Inl r) \<Rightarrow> Inr (st, r)
                     | Inr (Inr (st1, created)) \<Rightarrow>
                         open_handle st1 sessionId nm flags evMask created))))"

definition Mkdir :: "sys \<Rightarrow> master \<Rightarrow> nat \<Rightarrow> string \<Rightarrow> fatal + master \<times> response" where
  "Mkdir env st sessionId nm =
     (if \<not> valid_name nm then Inl AssertionFailed
      else
        (case sys_mkdir env (mBaseDir st @ nm) of
           Some e \<Rightarrow> Inr (st, ReportError e)
         | None \<Rightarrow>
             Inr (case FindParentNode st nm of
                    None \<Rightarrow> st
                  | Some (parentNodePtr, childName) \<Rightarrow>
                      emit st parentNodePtr
                        (\<lambda>i. EventNamed i EVENT_MASK_CHILD_NODE_ADDED childName)
                        default_waitForNotify,
                  ResponseOk)))"

definition Delete :: "sys \<Rightarrow> master \<Rightarrow> nat \<Rightarrow> string \<Rightarrow> fatal + master \<times> response" where
  "Delete env st sessionId nm =
     (if \<not> valid_name nm then Inl AssertionFailed
      else
        (case sys_stat env (mBaseDir st @ nm) of
           Inl e \<Rightarrow> Inr (st, ReportError e)
         | Inr st_mode \<Rightarrow>
             (case (if st_mode AND S_IFDIR \<noteq> 0 then sys_rmdir env (mBaseDir st @ nm)
                    else sys_unlink env (mBaseDir st @ nm)) of
                Some e \<Rightarrow> Inr (st, ReportError e)
              | None \<Rightarrow>
                  Inr (case FindParentNode st nm of
                         None \<Rightarrow> st
                       | Some (parentNodePtr, childName) \<Rightarrow>
                           emit st parentNodePtr
                             (\<lambda>i. EventNamed i EVENT_MASK_CHILD_NODE_REMOVED childName)
                             default_waitForNotify,
                       ResponseOk))))"

definition Exists :: "sys \<Rightarrow> master \<Rightarrow> nat \<Rightarrow> string \<Rightarrow> fatal + master \<times> response" where
  "Exists env st sessionId nm =
     (if \<not> valid_name nm then Inl AssertionFailed
      else Inr (st, ResponseExists (sys_exists env (mBaseDir st @ nm))))"

section \<open>Attributes\<close>

definition AttrSet ::
  "sys \<Rightarrow> master \<Rightarrow> nat \<Rightarrow> nat \<Rightarrow> string \<Rightarrow> 8 word list \<Rightarrow> fatal + master \<times> response" where
  "AttrSet env st sessionId handle nm val =
     (case GetSessionData st sessionId of
        None \<Rightarrow> Inr (st, ResponseError HYPERSPACE_EXPIRED_SESSION)
      | Some sessionData \<Rightarrow>
          (case GetHandleData st handle of
             None \<Rightarrow> Inr (st, ResponseError HYPERSPACE_EXPIRED_SESSION)
           | Some handlePtr \<Rightarrow>
               (case mNodeMap st (node handlePtr) of
                  None \<Rightarrow> Inl InvalidPointer
                | Some nd \<Rightarrow>
                    (case sys_fsetxattr env (fd nd) nm val of
                       Some e \<Rightarrow> Inl ProcessExit
                     | None \<Rightarrow>
                         Inr (emit st nd (\<lambda>i. EventNamed i EVENT_MASK_ATTR_SET nm)
                                default_waitForNotify,
                              ResponseOk)))))"

definition AttrGet ::
  "sys \<Rightarrow> master \<Rightarrow> nat \<Rightarrow> nat \<Rightarrow> string \<Rightarrow> fatal + master \<times> response" where
  "AttrGet env st sessionId handle nm =
     (case GetSessionData st sessionId of
        None \<Rightarrow> Inr (st, ResponseError HYPERSPACE_EXPIRED_SESSION)
      | Some sessionData \<Rightarrow>
          (case GetHandleData st handle of
             None \<Rightarrow> Inr (st, ResponseError HYPERSPACE_EXPIRED_SESSION)
           | Some handlePtr \<Rightarrow>
               (case mNodeMap st (node handlePtr) of
                  None \<Rightarrow> Inl InvalidPointer
                | Some nd \<Rightarrow>
                    (case sys_fgetxattr_size env (fd nd) nm of
                       Inl e \<Rightarrow> Inr (st, ReportError e)
                     | Inr alen \<Rightarrow>
                         (case sys_fgetxattr env (fd nd) nm alen of
                            Inl e \<Rightarrow> Inr (st, ReportError e)
                          | Inr buf \<Rightarrow> Inr (st, ResponseAttrGet buf))))))"

definition AttrDel ::
  "sys \<Rightarrow> master \<Rightarrow> nat \<Rightarrow> nat \<Rightarrow> string \<Rightarrow> fatal + master \<times> response" where
  "AttrDel env st sessionId handle nm =
     (case GetSessionData st sessionId of
        None \<Rightarrow> Inr (st, ResponseError HYPERSPACE_EXPIRED_SESSION)
      | Some sessionData \<Rightarrow>
          (case GetHandleData st handle of
             None \<Rightarrow> Inr (st, ResponseError HYPERSPACE_EXPIRED_SESSION)
           | Some handlePtr \<Rightarrow>
               (case mNodeMap st (node handlePtr) of
                  None \<Rightarrow> Inl InvalidPointer
                | Some nd \<Rightarrow>
                    (case sys_fremovexattr env (fd nd) nm of
                       Some e \<Rightarrow> Inr (st, ReportError e)
                     | None \<Rightarrow>
                         Inr (emit st nd (\<lambda>i. EventNamed i EVENT_MASK_ATTR_DEL nm)
                                default_waitForNotify,
                              ResponseOk)))))"

section \<open>Session expiry\<close>

text \<open>
  Modelled from the spec: the comparison \<^verbatim>\<open>ltSessionData\<close> is not among the sources;
  the expiry structure is ordered by deadline, so after \<^verbatim>\<open>make_heap\<close> the first
  element of the vector is a session with the earliest deadline (the first such one
  here). \<^verbatim>\<open>pop_heap\<close> and \<^verbatim>\<open>resize\<close> remove it; the order of the rest is rebuilt at
  the next call.
\<close>

definition deadline :: "master \<Rightarrow> nat \<Rightarrow> nat" where
  "deadline st sid = (case mSessionMap st sid of None \<Rightarrow> 0 | Some s \<Rightarrow> expireTime s)"

definition heap_top :: "master \<Rightarrow> nat" where
  "heap_top st = arg_min_list (deadline st) (mSessionHeap st)"

definition NextExpiredSession :: "sys \<Rightarrow> master \<Rightarrow> (master \<times> nat) option" where
  "NextExpiredSession env st =
     (if mSessionHeap st \<noteq> [] then
        (case mSessionMap st (heap_top st) of
           None \<Rightarrow> None
         | Some s \<Rightarrow>
             if IsExpired (sys_now env) s then
               Some (st\<lparr>mSessionHeap := remove1 (heap_top st) (mSessionHeap st)\<rparr>, heap_top st)
             else None)
      else None)"

text \<open>The loop of \<^verbatim>\<open>RemoveExpiredSessions\<close> over the handles of one expired session.\<close>

fun destroy_handles :: "sys \<Rightarrow> master \<Rightarrow> nat list \<Rightarrow> fatal + master" where
  "destroy_handles env st [] = Inr st"
| "destroy_handles env st (h # hs) =
     (case RemoveHandleData st h of
        None \<Rightarrow> destroy_handles env st hs
      | Some (st1, handlePtr) \<Rightarrow>
          (case DestroyHandle env st1 h False of
             Inl f \<Rightarrow> Inl f
           | Inr (st2, r) \<Rightarrow> destroy_handles env st2 hs))"

definition expire_session :: "sys \<Rightarrow> master \<Rightarrow> nat \<Rightarrow> fatal + master" where
  "expire_session env st sid =
     (let st1 = st\<lparr>mSessionMap := session_update sid Expire (mSessionMap st)\<rparr>
      in case mSessionMap st1 sid of
           None \<Rightarrow> Inr st1
         | Some s \<Rightarrow> destroy_handles env st1 (handles s))"


text \<open>
  What the state loses in these calls: the session heap is touched by
  \<^verbatim>\<open>NextExpiredSession\<close> only, and no call takes a key out of the session map.
\<close>

lemma session_update_dom [simp]: "dom (session_update k f sm) = dom sm"
  by (auto simp: session_update_def split: option.splits)

lemma deliver_loop_dom:
  "deliver_loop objs hs (ev, sm, n) = (ev', sm', n') \<Longrightarrow> dom sm' = dom sm"
proof (induction hs arbitrary: ev sm n)
  case Nil
  then show ?case by simp
next
  case (Cons h hs)
  show ?case
  proof (cases "objs h")
    case None
    with Cons.prems have "deliver_loop objs hs (ev, sm, n) = (ev', sm', n')" by simp
    then show ?thesis by (rule Cons.IH)
  next
    case (Some hp)
    show ?thesis
    proof (cases "eventMask hp AND GetMask ev \<noteq> 0")
      case True
      with Cons.prems Some have
        "deliver_loop objs hs (IncrementNotificationCount ev,
           session_update (sessionPtr hp) (session_AddNotification (Notification h (body ev))) sm,
           n + 1) = (ev', sm', n')" by simp
      from Cons.IH [OF this] show ?thesis by simp
    next
      case False
      with Cons.prems Some have "deliver_loop objs hs (ev, sm, n) = (ev', sm', n')" by simp
      then show ?thesis by (rule Cons.IH)
    qed
  qed
qed

lemma Deliver_fields [simp]:
  "mSessionHeap (fst (DeliverEventNotifications st nd ev w)) = mSessionHeap st"
  "mNodeMap (fst (DeliverEventNotifications st nd ev w)) = mNodeMap st"
  "handleObjs (fst (DeliverEventNotifications st nd ev w)) = handleObjs st"
  "mHandleMap (fst (DeliverEventNotifications st nd ev w)) = mHandleMap st"
  "mNextEventId (fst (DeliverEventNotifications st nd ev w)) = mNextEventId st"
  "mNextHandleNumber (fst (DeliverEventNotifications st nd ev w)) = mNextHandleNumber st"
  "mNextSessionId (fst (DeliverEventNotifications st nd ev w)) = mNextSessionId st"
  "mBaseDir (fst (DeliverEventNotifications st nd ev w)) = mBaseDir st"
  "mLeaseInterval (fst (DeliverEventNotifications st nd ev w)) = mLeaseInterval st"
  by (simp_all add: DeliverEventNotifications_def split: prod.splits)

lemma Deliver_dom [simp]:
  "dom (mSessionMap (fst (DeliverEventNotifications st nd ev w))) = dom (mSessionMap st)"
proof -
  obtain ev' sm' n' where
    d: "deliver_loop (handleObjs st) (handleMap nd) (ev, mSessionMap st, 0) = (ev', sm', n')"
    by (cases "deliver_loop (handleObjs st) (handleMap nd) (ev, mSessionMap st, 0)") auto
  from deliver_loop_dom [OF d] d show ?thesis
    by (simp add: DeliverEventNotifications_def)
qed

lemma emit_fields [simp]:
  "mSessionHeap (emit st nd mk w) = mSessionHeap st"
  "mNodeMap (emit st nd mk w) = mNodeMap st"
  "handleObjs (emit st nd mk w) = handleObjs st"
  "mHandleMap (emit st nd mk w) = mHandleMap st"
  "mNextEventId (emit st nd mk w) = mNextEventId st + 1"
  "mNextHandleNumber (emit st nd mk w) = mNextHandleNumber st"
  "mNextSessionId (emit st nd mk w) = mNextSessionId st"
  "mBaseDir (emit st nd mk w) = mBaseDir st"
  "mLeaseInterval (emit st nd mk w) = mLeaseInterval st"
  "dom (mSessionMap (emit st nd mk w)) = dom (mSessionMap st)"
  by (simp_all add: emit_def)

lemma put_node_fields [simp]:
  "mSessionHeap (put_node k nd st) = mSessionHeap st"
  "mSessionMap (put_node k nd st) = mSessionMap st"
  "handleObjs (put_node k nd st) = handleObjs st"
  "mHandleMap (put_node k nd st) = mHandleMap st"
  "mNextEventId (put_node k nd st) = mNextEventId st"
  "mNextHandleNumber (put_node k nd st) = mNextHandleNumber st"
  "mNextSessionId (put_node k nd st) = mNextSessionId st"
  "mBaseDir (put_node k nd st) = mBaseDir st"
  "mLeaseInterval (put_node k nd st) = mLeaseInterval st"
  "mNodeMap (put_node k nd st) = (mNodeMap st)(k \<mapsto> nd)"
  by (simp_all add: put_node_def)

lemma DestroyHandle_heap:
  "DestroyHandle env st h w = Inr (st', r) \<Longrightarrow>
   mSessionHeap st' = mSessionHeap st \<and> dom (mSessionMap st') = dom (mSessionMap st)"
  by (auto simp: DestroyHandle_def Let_def split: option.splits if_splits prod.splits
           del: equalityI)

lemma RemoveHandleData_heap:
  "RemoveHandleData st h = Some (st', hp) \<Longrightarrow>
   mSessionHeap st' = mSessionHeap st \<and> mSessionMap st' = mSessionMap st"
  by (auto simp: RemoveHandleData_def split: option.splits)

lemma destroy_handles_heap:
  "destroy_handles env st hs = Inr st' \<Longrightarrow>
   mSessionHeap st' = mSessionHeap st \<and> dom (mSessionMap st') = dom (mSessionMap st)"
proof (induction hs arbitrary: st)
  case Nil
  then show ?case by simp
next
  case (Cons h hs)
  show ?case
  proof (cases "RemoveHandleData st h")
    case None
    with Cons show ?thesis by simp
  next
    case (Some p)
    obtain st1 hp where p: "p = (st1, hp)" by (cases p)
    from Cons.prems Some p obtain st2 r where
      d: "DestroyHandle env st1 h False = Inr (st2, r)" and
      r: "destroy_handles env st2 hs = Inr st'"
      by (auto split: sum.splits)
    from RemoveHandleData_heap [OF Some [unfolded p]] DestroyHandle_heap [OF d] Cons.IH [OF r]
    show ?thesis by simp
  qed
qed

lemma expire_session_heap:
  assumes "expire_session env st sid = Inr st'"
  shows "mSessionHeap st' = mSessionHeap st \<and> dom (mSessionMap st') = dom (mSessionMap st)"
proof -
  let ?st1 = "st\<lparr>mSessionMap := session_update sid Expire (mSessionMap st)\<rparr>"
  show ?thesis
  proof (cases "mSessionMap ?st1 sid")
    case None
    with assms have "st' = ?st1" by (simp add: expire_session_def Let_def)
    then show ?thesis by simp
  next
    case (Some s)
    with assms have "destroy_handles env ?st1 (handles s) = Inr st'"
      by (simp add: expire_session_def Let_def)
    from destroy_handles_heap [OF this] show ?thesis by simp
  qed
qed

lemma NextExpiredSession_heap:
  "NextExpiredSession env st = Some (st', sid) \<Longrightarrow>
   length (mSessionHeap st') < length (mSessionHeap st) \<and> mSessionMap st' = mSessionMap st
   \<and> sid \<in> set (mSessionHeap st) \<and> mSessionHeap st' = remove1 sid (mSessionHeap st)"
proof -
  assume a: "NextExpiredSession env st = Some (st', sid)"
  then have ne: "mSessionHeap st \<noteq> []"
    by (auto simp: NextExpiredSession_def split: if_splits)
  then have "heap_top st \<in> set (mSessionHeap st)"
    by (simp add: heap_top_def arg_min_list_in)
  moreover from ne have "length (mSessionHeap st) - 1 < length (mSessionHeap st)"
    by (cases "mSessionHeap st") auto
  ultimately show ?thesis using a ne
    by (auto simp: NextExpiredSession_def length_remove1 split: if_splits option.splits)
qed

function RemoveExpiredSessions :: "sys \<Rightarrow> master \<Rightarrow> fatal + master" where
  "RemoveExpiredSessions env st =
     (case NextExpiredSession env st of
        None \<Rightarrow> Inr st
      | Some (st1, sid) \<Rightarrow>
          (case expire_session env st1 sid of
             Inl f \<Rightarrow> Inl f
           | Inr st2 \<Rightarrow> RemoveExpiredSessions env st2))"
  by pat_completeness auto
termination
proof (relation "measure (\<lambda>(env, st). length (mSessionHeap st))")
  show "wf (measure (\<lambda>(env, st). length (mSessionHeap st)))" by simp
next
  fix env st x2 st1 sid st2
  assume a: "NextExpiredSession env st = Some x2" "(st1, sid) = x2"
    "expire_session env st1 sid = Inr st2"
  then have "NextExpiredSession env st = Some (st1, sid)" by simp
  then have "length (mSessionHeap st1) < length (mSessionHeap st)"
    by (rule NextExpiredSession_heap [THEN conjunct1])
  moreover have "mSessionHeap st2 = mSessionHeap st1"
    using a(3) by (rule expire_session_heap [THEN conjunct1])
  ultimately show "((env, st2), env, st) \<in> measure (\<lambda>(env, st). length (mSessionHeap st))"
    by simp
qed


section \<open>Requests\<close>

text \<open>
  One request to the master with the answers of the environment during it, and a run
  of requests from a state. A fatal outcome ends the run.
\<close>

datatype request =
    ReqCreateSession
  | ReqRenewSessionLease nat
  | ReqRemoveExpiredSessions
  | ReqMkdir nat string
  | ReqDelete nat string
  | ReqOpen nat string uint32 uint32
  | ReqClose nat nat
  | ReqAttrSet nat nat string "8 word list"
  | ReqAttrGet nat nat string
  | ReqAttrDel nat nat string
  | ReqExists nat string
  | ReqLock nat nat uint32 bool
  | ReqRelease nat nat

definition state_of :: "fatal + master \<times> response \<Rightarrow> fatal + master" where
  "state_of r = (case r of Inl f \<Rightarrow> Inl f | Inr (st, resp) \<Rightarrow> Inr st)"

fun step :: "sys \<Rightarrow> master \<Rightarrow> request \<Rightarrow> fatal + master" where
  "step env st ReqCreateSession = Inr (fst (CreateSession env st))"
| "step env st (ReqRenewSessionLease sid) = Inr (fst (RenewSessionLease env st sid))"
| "step env st ReqRemoveExpiredSessions = RemoveExpiredSessions env st"
| "step env st (ReqMkdir sid nm) = state_of (Mkdir env st sid nm)"
| "step env st (ReqDelete sid nm) = state_of (Delete env st sid nm)"
| "step env st (ReqOpen sid nm flags evMask) = state_of (Open env st sid nm flags evMask)"
| "step env st (ReqClose sid h) = state_of (Close env st sid h)"
| "step env st (ReqAttrSet sid h nm val) = state_of (AttrSet env st sid h nm val)"
| "step env st (ReqAttrGet sid h nm) = state_of (AttrGet env st sid h nm)"
| "step env st (ReqAttrDel sid h nm) = state_of (AttrDel env st sid h nm)"
| "step env st (ReqExists sid nm) = state_of (Exists env st sid nm)"
| "step env st (ReqLock sid h mode tryAcquire) = state_of (Lock env st sid h mode tryAcquire)"
| "step env st (ReqRelease sid h) = state_of (Release env st sid h)"

fun run :: "master \<Rightarrow> (sys \<times> request) list \<Rightarrow> fatal + master" where
  "run st [] = Inr st"
| "run st ((env, rq) # rest) =
     (case step env st rq of Inl f \<Rightarrow> Inl f | Inr st' \<Rightarrow> run st' rest)"

text \<open>An environment in which every call succeeds, for concrete runs.\<close>

definition ok_sys :: sys where
  "ok_sys =
     \<lparr>sys_now = 0,
      sys_stat = (\<lambda>p. Inr 0x81A4),
      sys_open = (\<lambda>p f. Inr 3),
      sys_close = (\<lambda>d. None),
      sys_mkdir = (\<lambda>p. None),
      sys_rmdir = (\<lambda>p. None),
      sys_unlink = (\<lambda>p. None),
      sys_exists = (\<lambda>p. True),
      sys_fgetxattr_u64 = (\<lambda>d a. Inr (8, 1)),
      sys_fsetxattr_u64 = (\<lambda>d a v. None),
      sys_fgetxattr_size = (\<lambda>d a. Inr 0),
      sys_fgetxattr = (\<lambda>d a n. Inr []),
      sys_fsetxattr = (\<lambda>d a v. None),
      sys_fremovexattr = (\<lambda>d a. None)\<rparr>"

definition response_of :: "fatal + master \<times> response \<Rightarrow> fatal + response" where
  "response_of r = (case r of Inl f \<Rightarrow> Inl f | Inr (st, resp) \<Rightarrow> Inr resp)"

definition node_at :: "fatal + master \<Rightarrow> string \<Rightarrow> NodeData option" where
  "node_at r nm = (case r of Inl f \<Rightarrow> None | Inr st \<Rightarrow> mNodeMap st nm)"

text \<open>
  Two runs on one node \<^verbatim>\<open>/a\<close>: a session opens three handles (ids 2, 3, 4) with
  LOCK and WRITE; handles 2 and 3 take the shared lock. In the first run handle 2
  releases and handle 4 then asks for the exclusive lock; in the second handle 4 asks
  for the exclusive lock while both shared holders are there.
\<close>

definition shared_then_exclusive :: "(sys \<times> request) list" where
  "shared_then_exclusive =
     [(ok_sys, ReqCreateSession),
      (ok_sys, ReqOpen 1 ''/a'' (OPEN_FLAG_LOCK OR OPEN_FLAG_WRITE) 0),
      (ok_sys, ReqOpen 1 ''/a'' (OPEN_FLAG_LOCK OR OPEN_FLAG_WRITE) 0),
      (ok_sys, ReqOpen 1 ''/a'' (OPEN_FLAG_LOCK OR OPEN_FLAG_WRITE) 0),
      (ok_sys, ReqLock 1 2 LOCK_MODE_SHARED False),
      (ok_sys, ReqLock 1 3 LOCK_MODE_SHARED False),
      (ok_sys, ReqRelease 1 2),
      (ok_sys, ReqLock 1 4 LOCK_MODE_EXCLUSIVE False)]"

definition shared_release_with_pending :: "(sys \<times> request) list" where
  "shared_release_with_pending =
     [(ok_sys, ReqCreateSession),
      (ok_sys, ReqOpen 1 ''/a'' (OPEN_FLAG_LOCK OR OPEN_FLAG_WRITE) 0),
      (ok_sys, ReqOpen 1 ''/a'' (OPEN_FLAG_LOCK OR OPEN_FLAG_WRITE) 0),
      (ok_sys, ReqOpen 1 ''/a'' (OPEN_FLAG_LOCK OR OPEN_FLAG_WRITE) 0),
      (ok_sys, ReqLock 1 2 LOCK_MODE_SHARED False),
      (ok_sys, ReqLock 1 3 LOCK_MODE_SHARED False),
      (ok_sys, ReqLock 1 4 LOCK_MODE_EXCLUSIVE False)]"

text \<open>The state of a run, or a default when the run ended the process.\<close>

definition state_or :: "master \<Rightarrow> fatal + master \<Rightarrow> master" where
  "state_or d r = (case r of Inl f \<Rightarrow> d | Inr st \<Rightarrow> st)"

text \<open>States and environments for concrete calls.\<close>

definition one_session :: master where
  "one_session = fst (CreateSession ok_sys (init_master 1000))"

definition failing_xattr_sys :: sys where
  "failing_xattr_sys =
     ok_sys\<lparr>sys_fsetxattr := (\<lambda>d a v. Some (EOTHER 28)),
            sys_fremovexattr := (\<lambda>d a. Some ENOATTR)\<rparr>"

definition one_handle :: master where
  "one_handle =
     state_or (init_master 1000)
       (run (init_master 1000)
          [(ok_sys, ReqCreateSession),
           (ok_sys, ReqOpen 1 ''/a'' (OPEN_FLAG_READ OR OPEN_FLAG_WRITE) 0)])"

text \<open>
  An environment in which the backing file does not exist yet, the state after a
  session created the ephemeral node \<^verbatim>\<open>/x\<close> (handle 2 open), and the state after a
  session created the permanent node \<^verbatim>\<open>/p\<close> and closed its only handle.
\<close>

definition fresh_file_sys :: sys where
  "fresh_file_sys =
     ok_sys\<lparr>sys_stat := (\<lambda>p. Inl ENOENT), sys_fgetxattr_u64 := (\<lambda>d a. Inl ENOATTR)\<rparr>"

definition ephemeral_node_open :: master where
  "ephemeral_node_open =
     state_or (init_master 1000)
       (run (init_master 1000)
          [(fresh_file_sys, ReqCreateSession),
           (fresh_file_sys, ReqOpen 1 ''/x'' (OPEN_FLAG_CREATE OR OPEN_FLAG_TEMP) 0)])"

definition permanent_node_closed :: master where
  "permanent_node_closed =
     state_or (init_master 1000)
       (run (init_master 1000)
          [(fresh_file_sys, ReqCreateSession),
           (fresh_file_sys, ReqOpen 1 ''/p'' (OPEN_FLAG_CREATE OR OPEN_FLAG_WRITE) 0),
           (ok_sys, ReqClose 1 2)])"

text \<open>
  A clock reading after the first session's lease has run out, and a run in which the
  session opens a handle and the expiry loop then runs.
\<close>

definition late_sys :: sys where
  "late_sys = ok_sys\<lparr>sys_now := 5000\<rparr>"

definition expiry_run :: "(sys \<times> request) list" where
  "expiry_run =
     [(ok_sys, ReqOpen 1 ''/a'' (OPEN_FLAG_LOCK OR OPEN_FLAG_WRITE) 0),
      (late_sys, ReqRemoveExpiredSessions)]"

text \<open>
  States of the node \<^verbatim>\<open>/a\<close> for concrete lock calls: held exclusively by handle 2
  with handle 3 open; shared by handles 2 and 3 with the exclusive request of handle 4
  pending; and unlocked with handle 2 open.
\<close>

definition exclusive_held :: master where
  "exclusive_held =
     state_or (init_master 1000)
       (run (init_master 1000)
          [(ok_sys, ReqCreateSession),
           (ok_sys, ReqOpen 1 ''/a'' (OPEN_FLAG_LOCK OR OPEN_FLAG_WRITE) 0),
           (ok_sys, ReqOpen 1 ''/a'' (OPEN_FLAG_LOCK OR OPEN_FLAG_WRITE) 0),
           (ok_sys, ReqLock 1 2 LOCK_MODE_EXCLUSIVE False)])"

definition shared_with_pending :: master where
  "shared_with_pending =
     state_or (init_master 1000) (run (init_master 1000) shared_release_with_pending)"

definition lock_free :: master where
  "lock_free =
     state_or (init_master 1000)
       (run (init_master 1000)
          [(ok_sys, ReqCreateSession),
           (ok_sys, ReqOpen 1 ''/a'' (OPEN_FLAG_LOCK OR OPEN_FLAG_WRITE) 0)])"

section \<open>Describing a release\<close>

text \<open>
  The effect of \<^verbatim>\<open>LockHandle\<close> on the node, for the handle id \<open>n\<close>.
\<close>

definition grant_id :: "uint32 \<Rightarrow> nat \<Rightarrow> NodeData \<Rightarrow> NodeData" where
  "grant_id mode n nd =
     (if mode = LOCK_MODE_SHARED then nd\<lparr>sharedLockHandles := insert n (sharedLockHandles nd)\<rparr>
      else nd\<lparr>exclusiveLockHandle := n\<rparr>)"

text \<open>A session's notification queue holds the notification.\<close>

definition notified :: "master \<Rightarrow> nat \<Rightarrow> notification \<Rightarrow> bool" where
  "notified st sid x =
     (case mSessionMap st sid of None \<Rightarrow> False | Some s \<Rightarrow> x \<in> set (notifications s))"

text \<open>
  A pending request is live when \<^verbatim>\<open>GetHandleData\<close> still finds its handle. The
  requests a release takes off the queue: the head alone when it is exclusive, else
  the longest run of shared requests at the front; \<open>next_mode\<close> is the mode they are
  granted in, and \<open>granted\<close> the handles of the live ones, in queue order.
\<close>

definition live :: "master \<Rightarrow> LockRequest \<Rightarrow> bool" where
  "live st r = (GetHandleData st (req_handle r) \<noteq> None)"

definition is_shared :: "LockRequest \<Rightarrow> bool" where
  "is_shared r = (req_mode r = LOCK_MODE_SHARED)"

definition dequeued :: "LockRequest list \<Rightarrow> LockRequest list" where
  "dequeued q =
     (case q of
        [] \<Rightarrow> []
      | r # rs \<Rightarrow> if req_mode r = LOCK_MODE_EXCLUSIVE then [r] else takeWhile is_shared q)"

definition next_mode :: "LockRequest list \<Rightarrow> uint32" where
  "next_mode q =
     (case q of
        [] \<Rightarrow> 0
      | r # rs \<Rightarrow> if req_mode r = LOCK_MODE_EXCLUSIVE then LOCK_MODE_EXCLUSIVE
                 else LOCK_MODE_SHARED)"

definition granted :: "master \<Rightarrow> LockRequest list \<Rightarrow> nat list" where
  "granted st q = map req_handle (filter (live st) (dequeued q))"

text \<open>
  The node once the releasing handle is taken out of the holders, and the node at the
  end of \<^verbatim>\<open>ReleaseLock\<close>.
\<close>

definition released :: "HandleData \<Rightarrow> NodeData \<Rightarrow> NodeData" where
  "released hp nd =
     (if exclusiveLockHandle nd \<noteq> 0 then nd\<lparr>exclusiveLockHandle := 0\<rparr>
      else nd\<lparr>sharedLockHandles := sharedLockHandles nd - {handleId hp}\<rparr>)"

definition after_release :: "master \<Rightarrow> HandleData \<Rightarrow> NodeData \<Rightarrow> NodeData" where
  "after_release st hp nd =
     (let q = pendingLockRequests nd;
          nd2 = (released hp nd)\<lparr>currentLockMode := 0,
                                 pendingLockRequests := drop (length (dequeued q)) q\<rparr>
      in if granted st q = [] then nd2
         else fold (grant_id (next_mode q)) (granted st q)
                (nd2\<lparr>lockGeneration := lockGeneration nd + 1,
                      currentLockMode := next_mode q\<rparr>))"

text \<open>
  The two assertions at the head of \<^verbatim>\<open>ReleaseLock\<close> (the releasing handle is the
  exclusive holder, or else one of the shared holders), and what the \<^verbatim>\<open>for\<close> loop
  needs of the handles it grants: each is an object filed under its own id and points
  to the releasing handle's node.
\<close>

definition holder :: "HandleData \<Rightarrow> NodeData \<Rightarrow> bool" where
  "holder hp nd =
     (if exclusiveLockHandle nd \<noteq> 0 then handleId hp = exclusiveLockHandle nd
      else handleId hp \<in> sharedLockHandles nd)"

definition queued_on :: "master \<Rightarrow> HandleData \<Rightarrow> nat list \<Rightarrow> bool" where
  "queued_on st hp ns =
     list_all (\<lambda>n. case handleObjs st n of
                     None \<Rightarrow> False
                   | Some p \<Rightarrow> handleId p = n \<and> node p = node hp) ns"




definition shared_queue :: master where
  "shared_queue =
     state_or (init_master 1000)
       (run (init_master 1000)
          [(ok_sys, ReqCreateSession),
           (ok_sys, ReqOpen 1 ''/a'' (OPEN_FLAG_LOCK OR OPEN_FLAG_WRITE) 0),
           (ok_sys, ReqOpen 1 ''/a'' (OPEN_FLAG_LOCK OR OPEN_FLAG_WRITE) 0),
           (ok_sys, ReqOpen 1 ''/a'' (OPEN_FLAG_LOCK OR OPEN_FLAG_WRITE) 0),
           (ok_sys, ReqOpen 1 ''/a'' (OPEN_FLAG_LOCK OR OPEN_FLAG_WRITE) 0),
           (ok_sys, ReqLock 1 2 LOCK_MODE_EXCLUSIVE False),
           (ok_sys, ReqLock 1 3 LOCK_MODE_SHARED False),
           (ok_sys, ReqLock 1 4 LOCK_MODE_SHARED False),
           (ok_sys, ReqLock 1 5 LOCK_MODE_EXCLUSIVE False)])"

text \<open>
  The handle and generation of every LOCK_GRANTED notification in a session's queue, in
  queue order.
\<close>

fun granted_generations :: "notification list \<Rightarrow> (nat \<times> uint64) list" where
  "granted_generations [] = []"
| "granted_generations (Notification n (EventLockGranted i m g) # xs) =
     (n, g) # granted_generations xs"
| "granted_generations (x # xs) = granted_generations xs"

text \<open>
  A run that leaves two shared requests (handles 3 and 4) pending behind the exclusive
  holder 2, and an environment in which the write of \<^verbatim>\<open>lock.generation\<close> fails.
\<close>

definition shared_batch :: "(sys \<times> request) list" where
  "shared_batch =
     [(ok_sys, ReqCreateSession),
      (ok_sys, ReqOpen 1 ''/a'' (OPEN_FLAG_LOCK OR OPEN_FLAG_WRITE) 0),
      (ok_sys, ReqOpen 1 ''/a'' (OPEN_FLAG_LOCK OR OPEN_FLAG_WRITE) 0),
      (ok_sys, ReqOpen 1 ''/a'' (OPEN_FLAG_LOCK OR OPEN_FLAG_WRITE) 0),
      (ok_sys, ReqLock 1 2 LOCK_MODE_EXCLUSIVE False),
      (ok_sys, ReqLock 1 3 LOCK_MODE_SHARED False),
      (ok_sys, ReqLock 1 4 LOCK_MODE_SHARED False)]"

definition generation_write_fails :: sys where
  "generation_write_fails = ok_sys\<lparr>sys_fsetxattr_u64 := (\<lambda>d a v. Some (EOTHER 5))\<rparr>"

section \<open>Describing a run\<close>

text \<open>
  What a state shows of a node's lock queue and generation, and what one request does
  to them as its answer and the state before it show: the request a \<^verbatim>\<open>lock\<close> appends
  (its answer is PENDING), the requests a \<^verbatim>\<open>release\<close> of a locked handle takes off the
  queue of the handle's node, and the generation a granting request observes (the one
  in the GRANTED answer of \<^verbatim>\<open>lock\<close>, or the node's generation after a \<^verbatim>\<open>release\<close>
  whose drain grants a handle).
\<close>

definition lock_state :: "master \<Rightarrow> string \<Rightarrow> (LockRequest list \<times> uint64) option" where
  "lock_state st k =
     map_option (\<lambda>nd. (pendingLockRequests nd, lockGeneration nd)) (mNodeMap st k)"

definition queue_of :: "master \<Rightarrow> string \<Rightarrow> LockRequest list" where
  "queue_of st k = (case mNodeMap st k of None \<Rightarrow> [] | Some nd \<Rightarrow> pendingLockRequests nd)"

definition handle_node :: "master \<Rightarrow> nat \<Rightarrow> string option" where
  "handle_node st h = map_option node (GetHandleData st h)"

definition enqueued_by :: "sys \<Rightarrow> master \<Rightarrow> request \<Rightarrow> string \<Rightarrow> LockRequest list" where
  "enqueued_by env st rq k =
     (case rq of
        ReqLock sid h mode t \<Rightarrow>
          if response_of (Lock env st sid h mode t) = Inr (ResponseLock LOCK_STATUS_PENDING)
             \<and> handle_node st h = Some k
          then [LockRequest h mode] else []
      | _ \<Rightarrow> [])"

definition releases_on :: "master \<Rightarrow> request \<Rightarrow> string \<Rightarrow> bool" where
  "releases_on st rq k =
     (case rq of
        ReqRelease sid h \<Rightarrow>
          GetSessionData st sid \<noteq> None
          \<and> (case GetHandleData st h of None \<Rightarrow> False | Some hp \<Rightarrow> locked hp \<and> node hp = k)
      | _ \<Rightarrow> False)"

definition dequeued_by :: "master \<Rightarrow> request \<Rightarrow> string \<Rightarrow> LockRequest list" where
  "dequeued_by st rq k = (if releases_on st rq k then dequeued (queue_of st k) else [])"

definition granted_generation :: "sys \<Rightarrow> master \<Rightarrow> request \<Rightarrow> string \<Rightarrow> uint64 option" where
  "granted_generation env st rq k =
     (case rq of
        ReqLock sid h mode t \<Rightarrow>
          (case response_of (Lock env st sid h mode t) of
             Inr (ResponseLockGranted s g) \<Rightarrow> if handle_node st h = Some k then Some g else None
           | _ \<Rightarrow> None)
      | ReqRelease sid h \<Rightarrow>
          if releases_on st rq k \<and> granted st (queue_of st k) \<noteq> []
          then map_option lockGeneration (node_at (step env st rq) k) else None
      | _ \<Rightarrow> None)"


fun grant_generations :: "string \<Rightarrow> master \<Rightarrow> (sys \<times> request) list \<Rightarrow> uint64 list" where
  "grant_generations k st [] = []"
| "grant_generations k st ((env, rq) # rest) =
     (case step env st rq of
        Inl f \<Rightarrow> []
      | Inr st' \<Rightarrow>
          (case granted_generation env st rq k of None \<Rightarrow> [] | Some g \<Rightarrow> [g])
          @ grant_generations k st' rest)"

fun registered_throughout :: "string \<Rightarrow> master \<Rightarrow> (sys \<times> request) list \<Rightarrow> bool" where
  "registered_throughout k st [] = (mNodeMap st k \<noteq> None)"
| "registered_throughout k st ((env, rq) # rest) =
     (mNodeMap st k \<noteq> None
      \<and> (case step env st rq of Inl f \<Rightarrow> True | Inr st' \<Rightarrow> registered_throughout k st' rest))"

text \<open>
  Between two states, every node of the second is a node of the first with the same
  queue and generation.
\<close>

definition kept_or_gone :: "master \<Rightarrow> master \<Rightarrow> bool" where
  "kept_or_gone st st' = (\<forall>k. lock_state st' k = None \<or> lock_state st' k = lock_state st k)"


definition ephemeral_relock :: "(sys \<times> request) list" where
  "ephemeral_relock =
     [(fresh_file_sys, ReqCreateSession),
      (fresh_file_sys, ReqOpen 1 ''/x''
         (OPEN_FLAG_CREATE OR OPEN_FLAG_TEMP OR OPEN_FLAG_LOCK OR OPEN_FLAG_WRITE) 0),
      (fresh_file_sys, ReqLock 1 2 LOCK_MODE_EXCLUSIVE False),
      (fresh_file_sys, ReqClose 1 2),
      (fresh_file_sys, ReqOpen 1 ''/x''
         (OPEN_FLAG_CREATE OR OPEN_FLAG_TEMP OR OPEN_FLAG_LOCK OR OPEN_FLAG_WRITE) 0),
      (fresh_file_sys, ReqLock 1 3 LOCK_MODE_EXCLUSIVE False)]"

definition grant_run :: "(sys \<times> request) list" where
  "grant_run =
     [(ok_sys, ReqLock 1 2 LOCK_MODE_EXCLUSIVE False),
      (ok_sys, ReqOpen 1 ''/a'' (OPEN_FLAG_LOCK OR OPEN_FLAG_WRITE) 0),
      (ok_sys, ReqLock 1 3 LOCK_MODE_SHARED False),
      (ok_sys, ReqRelease 1 2),
      (ok_sys, ReqRelease 1 3),
      (ok_sys, ReqLock 1 2 LOCK_MODE_SHARED False)]"


section \<open>Properties of event delivery\<close>

lemma GetMask_Increment: "GetMask (IncrementNotificationCount ev) = GetMask ev"
  by (simp add: GetMask_def IncrementNotificationCount_def)

lemma deliver_loop_count:
  "deliver_loop objs hs (ev, sm, n) = (ev', sm', n') \<Longrightarrow> GetMask ev = m \<Longrightarrow>
   notificationCount ev' = notificationCount ev +
     length (filter (\<lambda>h. case objs h of None \<Rightarrow> False | Some hp \<Rightarrow> eventMask hp AND m \<noteq> 0) hs)
   \<and> n' = n + length (filter (\<lambda>h. case objs h of None \<Rightarrow> False | Some hp \<Rightarrow> eventMask hp AND m \<noteq> 0) hs)"
proof (induction hs arbitrary: ev sm n)
  case Nil
  then show ?case by simp
next
  case (Cons h hs)
  show ?case
  proof (cases "objs h")
    case None
    with Cons.prems have "deliver_loop objs hs (ev, sm, n) = (ev', sm', n')" by simp
    from Cons.IH [OF this Cons.prems(2)] None show ?thesis by simp
  next
    case (Some hp)
    show ?thesis
    proof (cases "eventMask hp AND m \<noteq> 0")
      case True
      with Cons.prems Some have
        "deliver_loop objs hs (IncrementNotificationCount ev,
           session_update (sessionPtr hp) (session_AddNotification (Notification h (body ev))) sm,
           n + 1) = (ev', sm', n')" by simp
      moreover have "GetMask (IncrementNotificationCount ev) = m"
        using Cons.prems(2) by (simp add: GetMask_Increment)
      ultimately have
        "notificationCount ev' = notificationCount (IncrementNotificationCount ev) +
           length (filter (\<lambda>h. case objs h of None \<Rightarrow> False | Some hp \<Rightarrow> eventMask hp AND m \<noteq> 0) hs)
         \<and> n' = (n + 1) + length (filter (\<lambda>h. case objs h of None \<Rightarrow> False | Some hp \<Rightarrow> eventMask hp AND m \<noteq> 0) hs)"
        by (rule Cons.IH)
      with Some True show ?thesis
        by (simp add: IncrementNotificationCount_def)
    next
      case False
      with Cons.prems Some have "deliver_loop objs hs (ev, sm, n) = (ev', sm', n')" by simp
      from Cons.IH [OF this Cons.prems(2)] Some False show ?thesis by simp
    qed
  qed
qed

text \<open>
  C10. A node-scoped delivery adds to the event's notification counter one for every
  entry of the node's handle map whose handle's event mask has a bit in common with the
  event's mask, and the caller enters the wait when and only when the delivery was
  asked to wait and at least one handle was selected.
\<close>

theorem DeliverEventNotifications_counts:
  "notificationCount (fst (snd (DeliverEventNotifications st nd ev w))) =
     notificationCount ev + length (filter (selected st ev) (handleMap nd))
   \<and> snd (snd (DeliverEventNotifications st nd ev w)) =
       (w \<and> filter (selected st ev) (handleMap nd) \<noteq> [])"
proof -
  obtain ev' sm' n' where
    d: "deliver_loop (handleObjs st) (handleMap nd) (ev, mSessionMap st, 0) = (ev', sm', n')"
    by (cases "deliver_loop (handleObjs st) (handleMap nd) (ev, mSessionMap st, 0)") auto
  have sel: "selected st ev =
    (\<lambda>h. case handleObjs st h of None \<Rightarrow> False | Some hp \<Rightarrow> eventMask hp AND GetMask ev \<noteq> 0)"
    by (rule ext) (simp add: selected_def)
  from deliver_loop_count [OF d refl] d show ?thesis
    by (simp add: DeliverEventNotifications_def sel)
qed


section \<open>Lock exclusivity and the release of a shared lock\<close>

text \<open>
  C1. Lock exclusivity: the mode of a node is never exclusive while its set of shared
  holders is non-empty. \<^verbatim>\<open>Master::ReleaseLock\<close> resets \<^verbatim>\<open>currentLockMode\<close> to none
  whenever a locked handle releases, also when other shared holders remain, so the run
  \<open>shared_then_exclusive\<close> ends with the node in exclusive mode, held by handle 4,
  while handle 3 is still in the set of shared holders.
\<close>

theorem exclusive_granted_beside_shared_holder:
  "map_option (\<lambda>nd. (currentLockMode nd, sharedLockHandles nd, exclusiveLockHandle nd))
     (node_at (run (init_master 1000) shared_then_exclusive) ''/a'')
   = Some (LOCK_MODE_EXCLUSIVE, {3}, 4)"
  by code_simp

text \<open>
  C2. A release that leaves another holder on the node keeps the mode and grants no
  pending request. In the run \<open>shared_release_with_pending\<close> the node is shared, held
  by handles 2 and 3, with the exclusive request of handle 4 pending; the release of
  handle 2 then grants the node to handle 4 in exclusive mode although handle 3 still
  holds the shared lock.
\<close>

theorem release_with_holder_left_drains:
  "map_option (\<lambda>nd. (currentLockMode nd, sharedLockHandles nd, exclusiveLockHandle nd,
                     pendingLockRequests nd))
     (node_at (run (init_master 1000) shared_release_with_pending) ''/a'')
   = Some (LOCK_MODE_SHARED, {2, 3}, 0, [LockRequest 4 LOCK_MODE_EXCLUSIVE])
   \<and> map_option (\<lambda>nd. (currentLockMode nd, sharedLockHandles nd, exclusiveLockHandle nd,
                     pendingLockRequests nd))
     (node_at (run (init_master 1000) (shared_release_with_pending @ [(ok_sys, ReqRelease 1 2)]))
        ''/a'')
   = Some (LOCK_MODE_EXCLUSIVE, {3}, 4, [])"
  by code_simp

section \<open>Error responses\<close>

text \<open>
  C7. A handle id that is absent from the handle table is answered with
  \<open>HYPERSPACE_INVALID_HANDLE\<close>. \<^verbatim>\<open>Master::Close\<close> does so; \<^verbatim>\<open>AttrSet\<close>, \<^verbatim>\<open>AttrGet\<close>,
  \<^verbatim>\<open>AttrDel\<close>, \<^verbatim>\<open>Lock\<close> and \<^verbatim>\<open>Release\<close> answer a failed \<^verbatim>\<open>GetHandleData\<close> with
  \<open>HYPERSPACE_EXPIRED_SESSION\<close>, the code of the session lookup above it.
\<close>

theorem absent_handle_responses:
  assumes "GetSessionData st sid \<noteq> None" and "GetHandleData st h = None"
  shows "Close env st sid h = Inr (st, ResponseError HYPERSPACE_INVALID_HANDLE)
       \<and> AttrSet env st sid h nm val = Inr (st, ResponseError HYPERSPACE_EXPIRED_SESSION)
       \<and> AttrGet env st sid h nm = Inr (st, ResponseError HYPERSPACE_EXPIRED_SESSION)
       \<and> AttrDel env st sid h nm = Inr (st, ResponseError HYPERSPACE_EXPIRED_SESSION)
       \<and> Lock env st sid h mode tryAcquire = Inr (st, ResponseError HYPERSPACE_EXPIRED_SESSION)
       \<and> Release env st sid h = Inr (st, ResponseError HYPERSPACE_EXPIRED_SESSION)"
proof -
  from assms(1) obtain s where s: "GetSessionData st sid = Some s" by auto
  have "RemoveHandleData st h = None"
    using assms(2) by (simp add: RemoveHandleData_def)
  with s assms(2) show ?thesis
    by (simp add: Close_def AttrSet_def AttrGet_def AttrDel_def Lock_def Release_def)
qed

theorem absent_handle_responses_witness:
  "response_of (Close ok_sys one_session 1 7) = Inr (ResponseError HYPERSPACE_INVALID_HANDLE)
   \<and> response_of (AttrSet ok_sys one_session 1 7 ''k'' []) = Inr (ResponseError HYPERSPACE_EXPIRED_SESSION)
   \<and> response_of (AttrGet ok_sys one_session 1 7 ''k'') = Inr (ResponseError HYPERSPACE_EXPIRED_SESSION)
   \<and> response_of (AttrDel ok_sys one_session 1 7 ''k'') = Inr (ResponseError HYPERSPACE_EXPIRED_SESSION)
   \<and> response_of (Lock ok_sys one_session 1 7 LOCK_MODE_SHARED False) = Inr (ResponseError HYPERSPACE_EXPIRED_SESSION)
   \<and> response_of (Release ok_sys one_session 1 7) = Inr (ResponseError HYPERSPACE_EXPIRED_SESSION)"
proof -
  have h1: "GetSessionData one_session 1 \<noteq> None" by code_simp
  have h2: "GetHandleData one_session 7 = None" by code_simp
  from absent_handle_responses [OF h1 h2] show ?thesis
    by (simp add: response_of_def)
qed

text \<open>
  C8. A failed write of the extended attribute in \<^verbatim>\<open>attr_set\<close> is answered with an
  error code. \<^verbatim>\<open>Master::AttrSet\<close> calls \<^verbatim>\<open>exit(1)\<close> instead; \<^verbatim>\<open>Master::AttrDel\<close> (and
  \<^verbatim>\<open>AttrGet\<close>) on the same node answer a failed call through \<^verbatim>\<open>ReportError\<close>.
\<close>

theorem AttrSet_write_failure_exits:
  assumes "GetSessionData st sid \<noteq> None" and "GetHandleData st h = Some hp"
    and "mNodeMap st (node hp) = Some nd"
    and "sys_fsetxattr env (fd nd) nm val = Some e"
    and "sys_fremovexattr env (fd nd) nm = Some e'"
  shows "AttrSet env st sid h nm val = Inl ProcessExit
       \<and> AttrDel env st sid h nm = Inr (st, ReportError e')"
proof -
  from assms(1) obtain s where s: "GetSessionData st sid = Some s" by auto
  with assms show ?thesis by (simp add: AttrSet_def AttrDel_def)
qed

theorem AttrSet_write_failure_exits_witness:
  "AttrSet failing_xattr_sys one_handle 1 2 ''k'' [1, 2] = Inl ProcessExit
   \<and> response_of (AttrDel failing_xattr_sys one_handle 1 2 ''k'')
       = Inr (ResponseError HYPERSPACE_ATTR_NOT_FOUND)"
proof -
  let ?hp = "\<lparr>handleId = 2, node = ''/a'', openFlags = OPEN_FLAG_READ OR OPEN_FLAG_WRITE,
            eventMask = 0, sessionPtr = 1, locked = False\<rparr>"
  let ?nd = "\<lparr>name = ''/a'', fd = 3, lockGeneration = 1, currentLockMode = 0,
            sharedLockHandles = {}, exclusiveLockHandle = 0, pendingLockRequests = [],
            handleMap = [2], ephemeral = False\<rparr>"
  have h1: "GetSessionData one_handle 1 \<noteq> None" by code_simp
  have h2: "GetHandleData one_handle 2 = Some ?hp" by code_simp
  have h3: "mNodeMap one_handle (node ?hp) = Some ?nd" by code_simp
  have h4: "sys_fsetxattr failing_xattr_sys (fd ?nd) ''k'' [1, 2] = Some (EOTHER 28)"
    by code_simp
  have h5: "sys_fremovexattr failing_xattr_sys (fd ?nd) ''k'' = Some ENOATTR" by code_simp
  from AttrSet_write_failure_exits [OF h1 h2 h3 h4 h5] show ?thesis
    by (simp add: response_of_def ReportError_def)
qed

section \<open>Opening ephemeral and permanent nodes\<close>

text \<open>
  C6, as stated: an open without TEMP of a node that exists as an ephemeral node fails
  with \<open>HYPERSPACE_FILE_EXISTS\<close>. It does not: with the ephemeral node \<^verbatim>\<open>/x\<close> open, an
  open of \<^verbatim>\<open>/x\<close> with the flag READ alone returns the new handle 3.
\<close>

theorem open_without_TEMP_on_ephemeral_node:
  "map_option ephemeral (mNodeMap ephemeral_node_open ''/x'') = Some True
   \<and> OPEN_FLAG_READ AND OPEN_FLAG_TEMP = 0
   \<and> response_of (Open fresh_file_sys ephemeral_node_open 1 ''/x'' OPEN_FLAG_READ 0)
       = Inr (ResponseOpen 3 False)"
  by code_simp

lemma open_handle_response:
  "mNodeMap st nm \<noteq> None \<Longrightarrow>
   \<exists>st'. open_handle st sid nm flags em created
          = Inr (st', ResponseOpen (mNextHandleNumber st + 1) created)"
  by (auto simp: open_handle_def CreateHandle_def Let_def split: option.splits prod.splits)

text \<open>
  C6, amended. The test in \<^verbatim>\<open>Master::Open\<close> is the converse one (``Unable to open TEMP
  file because it exists and is permanent''): an open with TEMP of a node that is
  registered as a permanent node with its descriptor closed, and whose backing file
  exists, fails with \<open>HYPERSPACE_FILE_EXISTS\<close>. An open without TEMP of a registered
  ephemeral node whose descriptor is open fails with \<open>HYPERSPACE_FILE_EXISTS\<close> only when
  its flags hold both CREATE and EXCL, and returns a new handle otherwise.
\<close>

theorem Open_FILE_EXISTS_for_TEMP:
  assumes "valid_name nm" and "GetSessionData st sid \<noteq> None" and "mNodeMap st nm = Some nd"
  shows "(flags AND OPEN_FLAG_TEMP \<noteq> 0 \<and> \<not> ephemeral nd \<and> fd nd < 0
            \<and> (\<exists>st_mode. sys_stat env (mBaseDir st @ nm) = Inr st_mode)
          \<longrightarrow> Open env st sid nm flags em = Inr (st, ResponseError HYPERSPACE_FILE_EXISTS))
       \<and> (flags AND OPEN_FLAG_TEMP = 0 \<and> ephemeral nd \<and> 0 \<le> fd nd
            \<and> (\<forall>e. sys_stat env (mBaseDir st @ nm) = Inl e \<longrightarrow> e = ENOENT)
          \<longrightarrow> (if flags AND OPEN_FLAG_CREATE \<noteq> 0 \<and> flags AND OPEN_FLAG_EXCL \<noteq> 0
               then Open env st sid nm flags em = Inr (st, ResponseError HYPERSPACE_FILE_EXISTS)
               else \<exists>st'. Open env st sid nm flags em
                      = Inr (st', ResponseOpen (mNextHandleNumber st + 1) False)))"
proof (intro conjI impI)
  from assms(2) obtain s where s: "GetSessionData st sid = Some s" by auto
  {
    assume a: "flags AND OPEN_FLAG_TEMP \<noteq> 0 \<and> \<not> ephemeral nd \<and> fd nd < 0
            \<and> (\<exists>st_mode. sys_stat env (mBaseDir st @ nm) = Inr st_mode)"
    then obtain st_mode where st: "sys_stat env (mBaseDir st @ nm) = Inr st_mode" by auto
    have "open_node env st nm flags True (\<not> (st_mode AND S_IFDIR \<noteq> 0))
            = Inr (Inl (ResponseError HYPERSPACE_FILE_EXISTS))"
      using a assms(3) by (simp add: open_node_def)
    with assms(1,3) s st
    show "Open env st sid nm flags em = Inr (st, ResponseError HYPERSPACE_FILE_EXISTS)"
      by (simp add: Open_def open_stat_def)
  }
  {
    assume a: "flags AND OPEN_FLAG_TEMP = 0 \<and> ephemeral nd \<and> 0 \<le> fd nd
            \<and> (\<forall>e. sys_stat env (mBaseDir st @ nm) = Inl e \<longrightarrow> e = ENOENT)"
    then obtain existed rdwr where
      os: "open_stat env (mBaseDir st @ nm) = Inr (existed, rdwr)"
      by (cases "sys_stat env (mBaseDir st @ nm)") (auto simp: open_stat_def)
    have on: "open_node env st nm flags existed rdwr = Inr (Inr (st, False))"
      using a assms(3) by (simp add: open_node_def)
    from assms(3) have "mNodeMap st nm \<noteq> None" by simp
    from open_handle_response [OF this, of sid flags em False] obtain st' where
      oh: "open_handle st sid nm flags em False
             = Inr (st', ResponseOpen (mNextHandleNumber st + 1) False)" by blast
    show "if flags AND OPEN_FLAG_CREATE \<noteq> 0 \<and> flags AND OPEN_FLAG_EXCL \<noteq> 0
          then Open env st sid nm flags em = Inr (st, ResponseError HYPERSPACE_FILE_EXISTS)
          else \<exists>st'. Open env st sid nm flags em
                 = Inr (st', ResponseOpen (mNextHandleNumber st + 1) False)"
      using assms(1,3) s os on oh by (auto simp: Open_def)
  }
qed


theorem Open_FILE_EXISTS_for_TEMP_witness:
  "response_of (Open ok_sys permanent_node_closed 1 ''/p'' (OPEN_FLAG_READ OR OPEN_FLAG_TEMP) 0)
     = Inr (ResponseError HYPERSPACE_FILE_EXISTS)
   \<and> response_of (Open fresh_file_sys ephemeral_node_open 1 ''/x'' OPEN_FLAG_READ 0)
     = Inr (ResponseOpen 3 False)"
proof -
  let ?p = "\<lparr>name = ''/p'', fd = - 1, lockGeneration = 1, currentLockMode = 0,
            sharedLockHandles = {}, exclusiveLockHandle = 0, pendingLockRequests = [],
            handleMap = [], ephemeral = False\<rparr>"
  let ?x = "\<lparr>name = ''/x'', fd = 3, lockGeneration = 1, currentLockMode = 0,
            sharedLockHandles = {}, exclusiveLockHandle = 0, pendingLockRequests = [],
            handleMap = [2], ephemeral = True\<rparr>"
  have p1: "valid_name ''/p''" by code_simp
  have p2: "GetSessionData permanent_node_closed 1 \<noteq> None" by code_simp
  have p3: "mNodeMap permanent_node_closed ''/p'' = Some ?p" by code_simp
  have p4: "(OPEN_FLAG_READ OR OPEN_FLAG_TEMP) AND OPEN_FLAG_TEMP \<noteq> 0 \<and> \<not> ephemeral ?p
            \<and> fd ?p < 0
            \<and> (\<exists>st_mode. sys_stat ok_sys (mBaseDir permanent_node_closed @ ''/p'') = Inr st_mode)"
    by (auto simp: open_flag_defs ok_sys_def)
  have x1: "valid_name ''/x''" by code_simp
  have x2: "GetSessionData ephemeral_node_open 1 \<noteq> None" by code_simp
  have x3: "mNodeMap ephemeral_node_open ''/x'' = Some ?x" by code_simp
  have x4: "OPEN_FLAG_READ AND OPEN_FLAG_TEMP = 0 \<and> ephemeral ?x \<and> 0 \<le> fd ?x
            \<and> (\<forall>e. sys_stat fresh_file_sys (mBaseDir ephemeral_node_open @ ''/x'') = Inl e
                  \<longrightarrow> e = ENOENT)"
    by (simp add: open_flag_defs fresh_file_sys_def ok_sys_def)
  have x5: "\<not> (OPEN_FLAG_READ AND OPEN_FLAG_CREATE \<noteq> 0 \<and> OPEN_FLAG_READ AND OPEN_FLAG_EXCL \<noteq> 0)"
    by (simp add: open_flag_defs)
  have x6: "mNextHandleNumber ephemeral_node_open + 1 = 3" by code_simp
  from Open_FILE_EXISTS_for_TEMP [OF p1 p2 p3, of "OPEN_FLAG_READ OR OPEN_FLAG_TEMP" ok_sys 0] p4
  have a: "Open ok_sys permanent_node_closed 1 ''/p'' (OPEN_FLAG_READ OR OPEN_FLAG_TEMP) 0
             = Inr (permanent_node_closed, ResponseError HYPERSPACE_FILE_EXISTS)"
    by blast
  from Open_FILE_EXISTS_for_TEMP [OF x1 x2 x3, of OPEN_FLAG_READ fresh_file_sys 0] x4 x5
  obtain st' where b: "Open fresh_file_sys ephemeral_node_open 1 ''/x'' OPEN_FLAG_READ 0
             = Inr (st', ResponseOpen (mNextHandleNumber ephemeral_node_open + 1) False)"
    by (simp only: if_False) blast
  from a b x6 show ?thesis by (simp add: response_of_def)
qed

section \<open>The session map only grows\<close>

text \<open>
  No method erases from \<^verbatim>\<open>mSessionMap\<close>: every request leaves the keys of the session
  map in place, the expiry loop included.
\<close>

lemma DeliverEventNotification_fields [simp]:
  "mSessionHeap (fst (DeliverEventNotification st hp ev w)) = mSessionHeap st"
  "mNodeMap (fst (DeliverEventNotification st hp ev w)) = mNodeMap st"
  "handleObjs (fst (DeliverEventNotification st hp ev w)) = handleObjs st"
  "mHandleMap (fst (DeliverEventNotification st hp ev w)) = mHandleMap st"
  "mNextEventId (fst (DeliverEventNotification st hp ev w)) = mNextEventId st"
  "mNextHandleNumber (fst (DeliverEventNotification st hp ev w)) = mNextHandleNumber st"
  "dom (mSessionMap (fst (DeliverEventNotification st hp ev w))) = dom (mSessionMap st)"
  by (simp_all add: DeliverEventNotification_def)

lemma LockHandle_dom:
  "LockHandle st h mode = Inr st' \<Longrightarrow> mSessionMap st' = mSessionMap st"
  by (auto simp: LockHandle_def split: option.splits if_splits)

lemma LockHandleWithNotification_dom:
  "LockHandleWithNotification st h mode w = Inr st' \<Longrightarrow>
   dom (mSessionMap st') = dom (mSessionMap st)"
  by (auto simp: LockHandleWithNotification_def split: option.splits sum.splits
           dest!: LockHandle_dom del: equalityI)

lemma grant_loop_dom:
  "grant_loop st hid ns mode w = Inr st' \<Longrightarrow> dom (mSessionMap st') = dom (mSessionMap st)"
proof (induction ns arbitrary: st)
  case Nil
  then show ?case by simp
next
  case (Cons n ns)
  from Cons.prems obtain st1 where
    a: "LockHandleWithNotification st n mode w = Inr st1" and
    b: "grant_loop st1 hid ns mode w = Inr st'"
    by (auto split: option.splits if_splits sum.splits)
  from LockHandleWithNotification_dom [OF a] Cons.IH [OF b] show ?case by simp
qed

lemma release_grant_dom:
  "release_grant env st hp nd w = Inr st' \<Longrightarrow> dom (mSessionMap st') = dom (mSessionMap st)"
  by (auto simp: release_grant_def Let_def
           split: if_splits prod.splits option.splits sum.splits
           dest!: grant_loop_dom del: equalityI)

lemma ReleaseLock_dom:
  "ReleaseLock env st h w = Inr st' \<Longrightarrow> dom (mSessionMap st') = dom (mSessionMap st)"
  by (auto simp: ReleaseLock_def Let_def
           split: if_splits option.splits
           dest!: release_grant_dom del: equalityI)

lemma Release_dom:
  "Release env st sid h = Inr (st', r) \<Longrightarrow> dom (mSessionMap st') = dom (mSessionMap st)"
  by (auto simp: Release_def split: option.splits sum.splits
           dest!: ReleaseLock_dom del: equalityI)

lemma lock_acquire_dom:
  "lock_acquire env st h hp nd mode = Inr (st', r) \<Longrightarrow>
   dom (mSessionMap st') = dom (mSessionMap st)"
  by (auto simp: lock_acquire_def Let_def split: option.splits sum.splits if_splits
           dest!: LockHandle_dom del: equalityI)

lemma Lock_dom:
  "Lock env st sid h mode t = Inr (st', r) \<Longrightarrow> dom (mSessionMap st') = dom (mSessionMap st)"
  by (auto simp: Lock_def push_pending_def split: option.splits if_splits
           dest!: lock_acquire_dom del: equalityI)

lemma Close_dom:
  "Close env st sid h = Inr (st', r) \<Longrightarrow> dom (mSessionMap st') = dom (mSessionMap st)"
  by (auto simp: Close_def split: option.splits sum.splits prod.splits
           dest!: RemoveHandleData_heap DestroyHandle_heap del: equalityI)

lemma open_node_dom:
  "open_node env st nm flags ex rw = Inr (Inr (st', c)) \<Longrightarrow> mSessionMap st' = mSessionMap st"
  by (auto simp: open_node_def split: option.splits sum.splits if_splits)

lemma open_handle_dom:
  "open_handle st sid nm flags em c = Inr (st', r) \<Longrightarrow>
   dom (mSessionMap st') = dom (mSessionMap st)"
  by (auto simp: open_handle_def CreateHandle_def Let_def
           split: option.splits prod.splits if_splits del: equalityI)

lemma Open_dom:
  "Open env st sid nm flags em = Inr (st', r) \<Longrightarrow> dom (mSessionMap st') = dom (mSessionMap st)"
  by (auto simp: Open_def split: option.splits sum.splits if_splits prod.splits
           dest!: open_node_dom open_handle_dom del: equalityI)

lemma Mkdir_dom:
  "Mkdir env st sid nm = Inr (st', r) \<Longrightarrow> dom (mSessionMap st') = dom (mSessionMap st)"
  by (auto simp: Mkdir_def split: option.splits if_splits del: equalityI)

lemma Delete_dom:
  "Delete env st sid nm = Inr (st', r) \<Longrightarrow> dom (mSessionMap st') = dom (mSessionMap st)"
  by (auto simp: Delete_def split: option.splits if_splits sum.splits del: equalityI)

lemma Exists_dom:
  "Exists env st sid nm = Inr (st', r) \<Longrightarrow> dom (mSessionMap st') = dom (mSessionMap st)"
  by (auto simp: Exists_def split: if_splits)

lemma AttrSet_dom:
  "AttrSet env st sid h nm v = Inr (st', r) \<Longrightarrow> dom (mSessionMap st') = dom (mSessionMap st)"
  by (auto simp: AttrSet_def split: option.splits del: equalityI)

lemma AttrGet_dom:
  "AttrGet env st sid h nm = Inr (st', r) \<Longrightarrow> dom (mSessionMap st') = dom (mSessionMap st)"
  by (auto simp: AttrGet_def split: option.splits sum.splits)

lemma AttrDel_dom:
  "AttrDel env st sid h nm = Inr (st', r) \<Longrightarrow> dom (mSessionMap st') = dom (mSessionMap st)"
  by (auto simp: AttrDel_def split: option.splits del: equalityI)

lemma RemoveExpiredSessions_dom:
  "RemoveExpiredSessions env st = Inr st' \<Longrightarrow> dom (mSessionMap st') = dom (mSessionMap st)"
proof (induction env st rule: RemoveExpiredSessions.induct)
  case (1 env st)
  show ?case
  proof (cases "NextExpiredSession env st")
    case None
    with "1.prems" show ?thesis by simp
  next
    case (Some p)
    obtain st1 sid where p: "p = (st1, sid)" by (cases p)
    from "1.prems" Some p obtain st2 where
      e: "expire_session env st1 sid = Inr st2" and
      r: "RemoveExpiredSessions env st2 = Inr st'"
      by (auto split: sum.splits)
    from "1.IH" [OF Some p [symmetric] e r]
      expire_session_heap [OF e] NextExpiredSession_heap [OF Some [unfolded p]]
    show ?thesis by simp
  qed
qed

lemma CreateSession_dom:
  "dom (mSessionMap st) \<subseteq> dom (mSessionMap (fst (CreateSession env st)))"
  by (auto simp: CreateSession_def Let_def)

lemma RenewSessionLease_dom:
  "dom (mSessionMap (fst (RenewSessionLease env st sid))) = dom (mSessionMap st)"
  by (auto simp: RenewSessionLease_def split: option.splits)

lemma state_of_Inr: "state_of r = Inr st' \<Longrightarrow> \<exists>resp. r = Inr (st', resp)"
  by (auto simp: state_of_def split: sum.splits)

lemma step_keeps_sessions:
  "step env st rq = Inr st' \<Longrightarrow> dom (mSessionMap st) \<subseteq> dom (mSessionMap st')"
proof (cases rq)
  case ReqCreateSession
  assume "step env st rq = Inr st'"
  with ReqCreateSession show ?thesis using CreateSession_dom [of st env] by auto
next
  case (ReqRenewSessionLease sid)
  assume "step env st rq = Inr st'"
  with ReqRenewSessionLease show ?thesis using RenewSessionLease_dom [of env st sid] by auto
next
  case ReqRemoveExpiredSessions
  assume "step env st rq = Inr st'"
  with ReqRemoveExpiredSessions show ?thesis using RemoveExpiredSessions_dom [of env st st'] by simp
next
  case (ReqMkdir sid nm)
  assume "step env st rq = Inr st'"
  with ReqMkdir show ?thesis by (auto dest!: state_of_Inr Mkdir_dom)
next
  case (ReqDelete sid nm)
  assume "step env st rq = Inr st'"
  with ReqDelete show ?thesis by (auto dest!: state_of_Inr Delete_dom)
next
  case (ReqOpen sid nm flags em)
  assume "step env st rq = Inr st'"
  with ReqOpen show ?thesis by (auto dest!: state_of_Inr Open_dom)
next
  case (ReqClose sid h)
  assume "step env st rq = Inr st'"
  with ReqClose show ?thesis by (auto dest!: state_of_Inr Close_dom)
next
  case (ReqAttrSet sid h nm v)
  assume "step env st rq = Inr st'"
  with ReqAttrSet show ?thesis by (auto dest!: state_of_Inr AttrSet_dom)
next
  case (ReqAttrGet sid h nm)
  assume "step env st rq = Inr st'"
  with ReqAttrGet show ?thesis by (auto dest!: state_of_Inr AttrGet_dom)
next
  case (ReqAttrDel sid h nm)
  assume "step env st rq = Inr st'"
  with ReqAttrDel show ?thesis by (auto dest!: state_of_Inr AttrDel_dom)
next
  case (ReqExists sid nm)
  assume "step env st rq = Inr st'"
  with ReqExists show ?thesis by (auto dest!: state_of_Inr Exists_dom)
next
  case (ReqLock sid h mode t)
  assume "step env st rq = Inr st'"
  with ReqLock show ?thesis by (auto dest!: state_of_Inr Lock_dom)
next
  case (ReqRelease sid h)
  assume "step env st rq = Inr st'"
  with ReqRelease show ?thesis by (auto dest!: state_of_Inr Release_dom)
qed

lemma run_keeps_sessions:
  "run st reqs = Inr st' \<Longrightarrow> dom (mSessionMap st) \<subseteq> dom (mSessionMap st')"
proof (induction reqs arbitrary: st)
  case Nil
  then show ?case by simp
next
  case (Cons a reqs)
  obtain env rq where a: "a = (env, rq)" by (cases a)
  from Cons.prems a obtain st1 where
    s: "step env st rq = Inr st1" and r: "run st1 reqs = Inr st'"
    by (auto split: sum.splits)
  from step_keeps_sessions [OF s] Cons.IH [OF r] show ?case by blast
qed

lemma Inr_state_or: "\<not> isl r \<Longrightarrow> r = Inr (state_or d r)"
  by (cases r) (simp_all add: state_or_def)

lemma Open_not_expired:
  assumes "GetSessionData st sid \<noteq> None"
  shows "response_of (Open env st sid nm flags em) \<noteq> Inr (ResponseError HYPERSPACE_EXPIRED_SESSION)"
proof -
  from assms obtain s where s: "GetSessionData st sid = Some s" by auto
  have oh: "\<And>st1 c. response_of (open_handle st1 sid nm flags em c)
              \<noteq> Inr (ResponseError HYPERSPACE_EXPIRED_SESSION)"
    by (auto simp: open_handle_def response_of_def CreateHandle_def Let_def
             split: option.splits prod.splits)
  have re: "\<And>e. ReportError e \<noteq> ResponseError HYPERSPACE_EXPIRED_SESSION"
    by (simp add: ReportError_def)
  have on: "\<And>ex rw r. open_node env st nm flags ex rw = Inr (Inl r) \<Longrightarrow>
              r \<noteq> ResponseError HYPERSPACE_EXPIRED_SESSION"
    by (auto simp: open_node_def new_node_def re split: option.splits sum.splits if_splits prod.splits)
  have os: "\<And>r. open_stat env (mBaseDir st @ nm) = Inl r \<Longrightarrow>
              r \<noteq> ResponseError HYPERSPACE_EXPIRED_SESSION"
    by (auto simp: open_stat_def re split: sum.splits if_splits)
  show ?thesis
  proof (cases "open_stat env (mBaseDir st @ nm)")
    case (Inl r)
    with s os [OF Inl] show ?thesis by (simp add: Open_def response_of_def)
  next
    case (Inr p)
    obtain ex rw where p: "p = (ex, rw)" by (cases p)
    show ?thesis
    proof (cases "open_node env st nm flags ex rw")
      case (Inl f)
      with s Inr p show ?thesis by (simp add: Open_def response_of_def)
    next
      case r: (Inr q)
      show ?thesis
      proof (cases q)
        case (Inl resp)
        with s Inr p r on [of ex rw resp] show ?thesis by (simp add: Open_def response_of_def)
      next
        case q: (Inr t)
        obtain st1 c where t: "t = (st1, c)" by (cases t)
        with s Inr p r q oh [of st1 c] show ?thesis by (simp add: Open_def response_of_def)
      qed
    qed
  qed
qed

text \<open>
  C9. A session that is in the session map stays there through every run of requests,
  so \<^verbatim>\<open>GetSessionData\<close> finds it also after its lease expired and
  \<^verbatim>\<open>RemoveExpiredSessions\<close> took it off the heap, destroyed its handles and marked it
  expired; a later \<^verbatim>\<open>Open\<close> with that session id is not answered
  \<open>HYPERSPACE_EXPIRED_SESSION\<close>. The concrete run below is such an expiry.
\<close>

theorem session_entry_never_removed:
  assumes "run st reqs = Inr st'" and "GetSessionData st sid \<noteq> None"
  shows "GetSessionData st' sid \<noteq> None
       \<and> response_of (Open env st' sid nm flags em)
           \<noteq> Inr (ResponseError HYPERSPACE_EXPIRED_SESSION)"
proof -
  from run_keeps_sessions [OF assms(1)] assms(2)
  have "GetSessionData st' sid \<noteq> None" by (auto simp: GetSessionData_def)
  with Open_not_expired [OF this] show ?thesis by simp
qed

theorem session_entry_never_removed_witness:
  "mSessionHeap (state_or (init_master 1000) (run one_session expiry_run)) = []
   \<and> mHandleMap (state_or (init_master 1000) (run one_session expiry_run)) = {}
   \<and> map_option expired
        (GetSessionData (state_or (init_master 1000) (run one_session expiry_run)) 1) = Some True
   \<and> GetSessionData (state_or (init_master 1000) (run one_session expiry_run)) 1 \<noteq> None
   \<and> response_of (Open ok_sys (state_or (init_master 1000) (run one_session expiry_run)) 1
                    ''/a'' OPEN_FLAG_READ 0)
        \<noteq> Inr (ResponseError HYPERSPACE_EXPIRED_SESSION)"
proof -
  have "\<not> isl (run one_session expiry_run)" by code_simp
  then have r: "run one_session expiry_run
                  = Inr (state_or (init_master 1000) (run one_session expiry_run))"
    by (rule Inr_state_or)
  have s: "GetSessionData one_session 1 \<noteq> None" by code_simp
  have a: "mSessionHeap (state_or (init_master 1000) (run one_session expiry_run)) = []"
    by code_simp
  have b: "mHandleMap (state_or (init_master 1000) (run one_session expiry_run)) = {}"
    by code_simp
  have c: "map_option expired
        (GetSessionData (state_or (init_master 1000) (run one_session expiry_run)) 1) = Some True"
    by code_simp
  from session_entry_never_removed [OF r s, of ok_sys "''/a''" OPEN_FLAG_READ 0] a b c
  show ?thesis by simp
qed

section \<open>The lock operation\<close>

lemma GetHandleData_Some:
  "GetHandleData st h = Some hp \<Longrightarrow> handleObjs st h = Some hp \<and> h \<in> mHandleMap st"
  by (auto simp: GetHandleData_def split: if_splits)

lemma lock_acquire_granted:
  assumes "handleObjs st h = Some hp" and "mNodeMap st (node hp) = Some nd"
    and "mode = LOCK_MODE_SHARED \<or> mode = LOCK_MODE_EXCLUSIVE"
    and "sys_fsetxattr_u64 env (fd nd) ''lock.generation'' (lockGeneration nd + 1) = None"
  shows "\<exists>st'. lock_acquire env st h hp nd mode
             = Inr (st', ResponseLockGranted LOCK_STATUS_GRANTED (lockGeneration nd + 1))
          \<and> mNodeMap st' = (mNodeMap st)(node hp \<mapsto>
               (if mode = LOCK_MODE_SHARED
                then nd\<lparr>lockGeneration := lockGeneration nd + 1, currentLockMode := mode,
                        sharedLockHandles := insert (handleId hp) (sharedLockHandles nd)\<rparr>
                else nd\<lparr>lockGeneration := lockGeneration nd + 1, currentLockMode := mode,
                        exclusiveLockHandle := handleId hp\<rparr>))
          \<and> handleObjs st' = (handleObjs st)(h \<mapsto> hp\<lparr>locked := True\<rparr>)
          \<and> mHandleMap st' = mHandleMap st"
  using assms
  by (auto simp: lock_acquire_def LockHandle_def Let_def lock_mode_defs)

text \<open>
  C3. \<^verbatim>\<open>lock(handle, mode, try_acquire)\<close> on a handle opened with LOCK and WRITE, for a
  shared or exclusive request. If the node is exclusive, or shared and the request is
  exclusive, the answer is BUSY with \<^verbatim>\<open>try_acquire\<close> (the state is unchanged) and
  otherwise the request is appended to the node's pending queue and the answer is
  PENDING. If the node is shared, the request shared and the queue non-empty, the
  request is appended and the answer is PENDING. If the node's mode is none, or it is
  shared with an empty queue and the request is shared, then (the write of the
  generation succeeding) the answer is GRANTED with the generation plus one, which is
  the node's new generation; the node takes the requested mode, the handle joins the
  holders and is marked locked.
\<close>

theorem Lock_outcomes:
  assumes "GetSessionData st sid \<noteq> None"
    and "GetHandleData st h = Some hp"
    and "openFlags hp AND OPEN_FLAG_LOCK \<noteq> 0" and "openFlags hp AND OPEN_FLAG_WRITE \<noteq> 0"
    and "mNodeMap st (node hp) = Some nd"
    and "mode = LOCK_MODE_SHARED \<or> mode = LOCK_MODE_EXCLUSIVE"
  shows "(currentLockMode nd = LOCK_MODE_EXCLUSIVE
            \<or> (currentLockMode nd = LOCK_MODE_SHARED \<and> mode = LOCK_MODE_EXCLUSIVE)
          \<longrightarrow> Lock env st sid h mode tryAcquire =
                (if tryAcquire then Inr (st, ResponseLock LOCK_STATUS_BUSY)
                 else Inr (st\<lparr>mNodeMap := (mNodeMap st)(node hp \<mapsto>
                             nd\<lparr>pendingLockRequests :=
                                   pendingLockRequests nd @ [LockRequest h mode]\<rparr>)\<rparr>,
                           ResponseLock LOCK_STATUS_PENDING)))
       \<and> (currentLockMode nd = LOCK_MODE_SHARED \<and> mode = LOCK_MODE_SHARED
            \<and> pendingLockRequests nd \<noteq> []
          \<longrightarrow> Lock env st sid h mode tryAcquire =
                Inr (st\<lparr>mNodeMap := (mNodeMap st)(node hp \<mapsto>
                          nd\<lparr>pendingLockRequests :=
                                pendingLockRequests nd @ [LockRequest h mode]\<rparr>)\<rparr>,
                     ResponseLock LOCK_STATUS_PENDING))
       \<and> ((currentLockMode nd = 0
             \<or> (currentLockMode nd = LOCK_MODE_SHARED \<and> mode = LOCK_MODE_SHARED
                 \<and> pendingLockRequests nd = []))
            \<and> sys_fsetxattr_u64 env (fd nd) ''lock.generation'' (lockGeneration nd + 1) = None
          \<longrightarrow> (\<exists>st'. Lock env st sid h mode tryAcquire =
                   Inr (st', ResponseLockGranted LOCK_STATUS_GRANTED (lockGeneration nd + 1))
                 \<and> mNodeMap st' = (mNodeMap st)(node hp \<mapsto>
                      (if mode = LOCK_MODE_SHARED
                       then nd\<lparr>lockGeneration := lockGeneration nd + 1, currentLockMode := mode,
                               sharedLockHandles := insert (handleId hp) (sharedLockHandles nd)\<rparr>
                       else nd\<lparr>lockGeneration := lockGeneration nd + 1, currentLockMode := mode,
                               exclusiveLockHandle := handleId hp\<rparr>))
                 \<and> handleObjs st' = (handleObjs st)(h \<mapsto> hp\<lparr>locked := True\<rparr>)))"
proof -
  from assms(1) obtain s where s: "GetSessionData st sid = Some s" by auto
  note ho = GetHandleData_Some [OF assms(2)]
  have busy: "currentLockMode nd = LOCK_MODE_EXCLUSIVE
            \<or> (currentLockMode nd = LOCK_MODE_SHARED \<and> mode = LOCK_MODE_EXCLUSIVE)
          \<longrightarrow> Lock env st sid h mode tryAcquire =
                (if tryAcquire then Inr (st, ResponseLock LOCK_STATUS_BUSY)
                 else Inr (st\<lparr>mNodeMap := (mNodeMap st)(node hp \<mapsto>
                             nd\<lparr>pendingLockRequests :=
                                   pendingLockRequests nd @ [LockRequest h mode]\<rparr>)\<rparr>,
                           ResponseLock LOCK_STATUS_PENDING))"
    using s assms(2-5) by (auto simp: Lock_def push_pending_def put_node_def)
  have pend: "currentLockMode nd = LOCK_MODE_SHARED \<and> mode = LOCK_MODE_SHARED
            \<and> pendingLockRequests nd \<noteq> []
          \<longrightarrow> Lock env st sid h mode tryAcquire =
                Inr (st\<lparr>mNodeMap := (mNodeMap st)(node hp \<mapsto>
                          nd\<lparr>pendingLockRequests :=
                                pendingLockRequests nd @ [LockRequest h mode]\<rparr>)\<rparr>,
                     ResponseLock LOCK_STATUS_PENDING)"
    using s assms(2-5) by (auto simp: Lock_def push_pending_def put_node_def lock_mode_defs)
  have grant: "(currentLockMode nd = 0
             \<or> (currentLockMode nd = LOCK_MODE_SHARED \<and> mode = LOCK_MODE_SHARED
                 \<and> pendingLockRequests nd = []))
            \<and> sys_fsetxattr_u64 env (fd nd) ''lock.generation'' (lockGeneration nd + 1) = None
          \<longrightarrow> (\<exists>st'. Lock env st sid h mode tryAcquire =
                   Inr (st', ResponseLockGranted LOCK_STATUS_GRANTED (lockGeneration nd + 1))
                 \<and> mNodeMap st' = (mNodeMap st)(node hp \<mapsto>
                      (if mode = LOCK_MODE_SHARED
                       then nd\<lparr>lockGeneration := lockGeneration nd + 1, currentLockMode := mode,
                               sharedLockHandles := insert (handleId hp) (sharedLockHandles nd)\<rparr>
                       else nd\<lparr>lockGeneration := lockGeneration nd + 1, currentLockMode := mode,
                               exclusiveLockHandle := handleId hp\<rparr>))
                 \<and> handleObjs st' = (handleObjs st)(h \<mapsto> hp\<lparr>locked := True\<rparr>))"
  proof
    assume a: "(currentLockMode nd = 0
             \<or> (currentLockMode nd = LOCK_MODE_SHARED \<and> mode = LOCK_MODE_SHARED
                 \<and> pendingLockRequests nd = []))
            \<and> sys_fsetxattr_u64 env (fd nd) ''lock.generation'' (lockGeneration nd + 1) = None"
    then have "Lock env st sid h mode tryAcquire = lock_acquire env st h hp nd mode"
      using s assms(2-5) by (auto simp: Lock_def lock_mode_defs)
    moreover from a have
      w: "sys_fsetxattr_u64 env (fd nd) ''lock.generation'' (lockGeneration nd + 1) = None"
      by simp
    note lock_acquire_granted [OF ho [THEN conjunct1] assms(5) assms(6) w]
    ultimately show "\<exists>st'. Lock env st sid h mode tryAcquire =
                   Inr (st', ResponseLockGranted LOCK_STATUS_GRANTED (lockGeneration nd + 1))
                 \<and> mNodeMap st' = (mNodeMap st)(node hp \<mapsto>
                      (if mode = LOCK_MODE_SHARED
                       then nd\<lparr>lockGeneration := lockGeneration nd + 1, currentLockMode := mode,
                               sharedLockHandles := insert (handleId hp) (sharedLockHandles nd)\<rparr>
                       else nd\<lparr>lockGeneration := lockGeneration nd + 1, currentLockMode := mode,
                               exclusiveLockHandle := handleId hp\<rparr>))
                 \<and> handleObjs st' = (handleObjs st)(h \<mapsto> hp\<lparr>locked := True\<rparr>)"
      by auto
  qed
  from busy pend grant show ?thesis by blast
qed

theorem Lock_outcomes_witness:
  "response_of (Lock ok_sys exclusive_held 1 3 LOCK_MODE_SHARED True)
     = Inr (ResponseLock LOCK_STATUS_BUSY)
   \<and> response_of (Lock ok_sys exclusive_held 1 3 LOCK_MODE_SHARED False)
     = Inr (ResponseLock LOCK_STATUS_PENDING)
   \<and> response_of (Lock ok_sys shared_with_pending 1 4 LOCK_MODE_SHARED True)
     = Inr (ResponseLock LOCK_STATUS_PENDING)
   \<and> response_of (Lock ok_sys lock_free 1 2 LOCK_MODE_SHARED False)
     = Inr (ResponseLockGranted LOCK_STATUS_GRANTED 2)"
proof -
  let ?h = "\<lambda>i. \<lparr>handleId = i, node = ''/a'', openFlags = OPEN_FLAG_LOCK OR OPEN_FLAG_WRITE,
            eventMask = 0, sessionPtr = 1, locked = False\<rparr>"
  let ?x = "\<lparr>name = ''/a'', fd = 3, lockGeneration = 2, currentLockMode = LOCK_MODE_EXCLUSIVE,
            sharedLockHandles = {}, exclusiveLockHandle = 2, pendingLockRequests = [],
            handleMap = [2, 3], ephemeral = False\<rparr>"
  let ?s = "\<lparr>name = ''/a'', fd = 3, lockGeneration = 3, currentLockMode = LOCK_MODE_SHARED,
            sharedLockHandles = {2, 3}, exclusiveLockHandle = 0,
            pendingLockRequests = [LockRequest 4 LOCK_MODE_EXCLUSIVE],
            handleMap = [2, 3, 4], ephemeral = False\<rparr>"
  let ?n = "\<lparr>name = ''/a'', fd = 3, lockGeneration = 1, currentLockMode = 0,
            sharedLockHandles = {}, exclusiveLockHandle = 0, pendingLockRequests = [],
            handleMap = [2], ephemeral = False\<rparr>"
  have fl: "openFlags (?h 3) AND OPEN_FLAG_LOCK \<noteq> 0" "openFlags (?h 3) AND OPEN_FLAG_WRITE \<noteq> 0"
    "openFlags (?h 4) AND OPEN_FLAG_LOCK \<noteq> 0" "openFlags (?h 4) AND OPEN_FLAG_WRITE \<noteq> 0"
    "openFlags (?h 2) AND OPEN_FLAG_LOCK \<noteq> 0" "openFlags (?h 2) AND OPEN_FLAG_WRITE \<noteq> 0"
    by (simp_all add: open_flag_defs)
  have md: "LOCK_MODE_SHARED = LOCK_MODE_SHARED \<or> LOCK_MODE_SHARED = LOCK_MODE_EXCLUSIVE"
    by simp
  have x1: "GetSessionData exclusive_held 1 \<noteq> None" by code_simp
  have x2: "GetHandleData exclusive_held 3 = Some (?h 3)" by code_simp
  have x3: "mNodeMap exclusive_held (node (?h 3)) = Some ?x" by code_simp
  have s1: "GetSessionData shared_with_pending 1 \<noteq> None" by code_simp
  have s2: "GetHandleData shared_with_pending 4 = Some (?h 4)" by code_simp
  have s3: "mNodeMap shared_with_pending (node (?h 4)) = Some ?s" by code_simp
  have n1: "GetSessionData lock_free 1 \<noteq> None" by code_simp
  have n2: "GetHandleData lock_free 2 = Some (?h 2)" by code_simp
  have n3: "mNodeMap lock_free (node (?h 2)) = Some ?n" by code_simp
  have n4: "sys_fsetxattr_u64 ok_sys (fd ?n) ''lock.generation'' (lockGeneration ?n + 1) = None"
    by (simp add: ok_sys_def)
  from Lock_outcomes [OF x1 x2 fl(1,2) x3 md, of ok_sys True]
  have a: "response_of (Lock ok_sys exclusive_held 1 3 LOCK_MODE_SHARED True)
     = Inr (ResponseLock LOCK_STATUS_BUSY)"
    by (simp add: response_of_def)
  from Lock_outcomes [OF x1 x2 fl(1,2) x3 md, of ok_sys False]
  have b: "response_of (Lock ok_sys exclusive_held 1 3 LOCK_MODE_SHARED False)
     = Inr (ResponseLock LOCK_STATUS_PENDING)"
    by (simp add: response_of_def)
  from Lock_outcomes [OF s1 s2 fl(3,4) s3 md, of ok_sys True]
  have c: "response_of (Lock ok_sys shared_with_pending 1 4 LOCK_MODE_SHARED True)
     = Inr (ResponseLock LOCK_STATUS_PENDING)"
    by (simp add: response_of_def)
  from Lock_outcomes [OF n1 n2 fl(5,6) n3 md, of ok_sys False] n4
  have d: "response_of (Lock ok_sys lock_free 1 2 LOCK_MODE_SHARED False)
     = Inr (ResponseLockGranted LOCK_STATUS_GRANTED 2)"
    by (auto simp: response_of_def)
  from a b c d show ?thesis by simp
qed

section \<open>The release operation\<close>

lemma LockHandle_eq:
  assumes "handleObjs st n = Some p" and "mNodeMap st (node p) = Some nd"
    and "mode = LOCK_MODE_SHARED \<or> mode = LOCK_MODE_EXCLUSIVE"
  shows "LockHandle st n mode =
         Inr ((put_node (node p) (grant_id mode (handleId p) nd) st)
                \<lparr>handleObjs := (handleObjs st)(n \<mapsto> p\<lparr>locked := True\<rparr>)\<rparr>)"
  using assms by (auto simp: LockHandle_def grant_id_def lock_mode_defs)

lemma grant_id_fields [simp]:
  "lockGeneration (grant_id mode n nd) = lockGeneration nd"
  "currentLockMode (grant_id mode n nd) = currentLockMode nd"
  "pendingLockRequests (grant_id mode n nd) = pendingLockRequests nd"
  "handleMap (grant_id mode n nd) = handleMap nd"
  "fd (grant_id mode n nd) = fd nd"
  "name (grant_id mode n nd) = name nd"
  "ephemeral (grant_id mode n nd) = ephemeral nd"
  by (simp_all add: grant_id_def)

lemma session_update_notified:
  "notified (st\<lparr>mSessionMap := session_update sid (session_AddNotification x) (mSessionMap st)\<rparr>) sid' y
   = (notified st sid' y \<or> (sid' = sid \<and> y = x \<and> sid \<in> dom (mSessionMap st)))"
  by (auto simp: notified_def session_update_def session_AddNotification_def
           split: option.splits)

lemma LockHandleWithNotification_eq:
  assumes "handleObjs st n = Some p" and "mNodeMap st (node p) = Some nd"
    and "mode = LOCK_MODE_SHARED \<or> mode = LOCK_MODE_EXCLUSIVE"
  shows "\<exists>st'. LockHandleWithNotification st n mode w = Inr st'
          \<and> mNodeMap st' = (mNodeMap st)(node p \<mapsto> grant_id mode (handleId p) nd)
          \<and> handleObjs st' = (handleObjs st)(n \<mapsto> p\<lparr>locked := True\<rparr>)
          \<and> mHandleMap st' = mHandleMap st
          \<and> mNextEventId st' = mNextEventId st + 1
          \<and> dom (mSessionMap st') = dom (mSessionMap st)
          \<and> (\<forall>sid y. notified st' sid y =
                (notified st sid y
                 \<or> (sid = sessionPtr p \<and> sid \<in> dom (mSessionMap st)
                    \<and> y = Notification (handleId p)
                            (EventLockGranted (mNextEventId st) mode (lockGeneration nd)))))"
proof -
  let ?st1 = "(put_node (node p) (grant_id mode (handleId p) nd) st)
                \<lparr>handleObjs := (handleObjs st)(n \<mapsto> p\<lparr>locked := True\<rparr>)\<rparr>"
  let ?ev = "new_event (EventLockGranted (mNextEventId st) mode (lockGeneration nd))"
  let ?st' = "fst (DeliverEventNotification (?st1\<lparr>mNextEventId := mNextEventId ?st1 + 1\<rparr>)
                (p\<lparr>locked := True\<rparr>) ?ev w)"
  have "LockHandleWithNotification st n mode w = Inr ?st'"
    by (simp add: LockHandleWithNotification_def LockHandle_eq [OF assms])
  moreover have "\<forall>sid y. notified ?st' sid y =
                (notified st sid y
                 \<or> (sid = sessionPtr p \<and> sid \<in> dom (mSessionMap st)
                    \<and> y = Notification (handleId p)
                            (EventLockGranted (mNextEventId st) mode (lockGeneration nd))))"
    by (auto simp: DeliverEventNotification_def notified_def session_update_def
                   session_AddNotification_def new_event_def split: option.splits)
  ultimately show ?thesis
    by (intro exI [of _ ?st']) simp
qed

lemma grant_loop_effect:
  assumes "mNodeMap st key = Some nd" and "mode = LOCK_MODE_SHARED \<or> mode = LOCK_MODE_EXCLUSIVE"
    and "\<forall>n\<in>set ns. \<exists>p. handleObjs st n = Some p \<and> handleId p = n \<and> node p = key \<and> n \<noteq> hid"
  shows "\<exists>st'. grant_loop st hid ns mode w = Inr st'
      \<and> mNodeMap st' = (mNodeMap st)(key \<mapsto> fold (grant_id mode) ns nd)
      \<and> (\<forall>m. handleObjs st' m =
              (if m \<in> set ns then map_option (\<lambda>p. p\<lparr>locked := True\<rparr>) (handleObjs st m)
               else handleObjs st m))
      \<and> mHandleMap st' = mHandleMap st
      \<and> dom (mSessionMap st') = dom (mSessionMap st)
      \<and> (\<forall>sid y. notified st sid y \<longrightarrow> notified st' sid y)
      \<and> (\<forall>n\<in>set ns. \<forall>p. handleObjs st n = Some p \<longrightarrow> sessionPtr p \<in> dom (mSessionMap st) \<longrightarrow>
            (\<exists>i. notified st' (sessionPtr p)
                   (Notification n (EventLockGranted i mode (lockGeneration nd)))))"
  using assms
proof (induction ns arbitrary: st nd)
  case Nil
  then show ?case by (auto simp: fun_upd_idem)
next
  case (Cons n ns)
  from Cons.prems(3) obtain p where
    p: "handleObjs st n = Some p" "handleId p = n" "node p = key" "n \<noteq> hid"
    by auto
  from Cons.prems(1) p(3) have nd: "mNodeMap st (node p) = Some nd" by simp
  from LockHandleWithNotification_eq [OF p(1) nd Cons.prems(2), of w] obtain st1 where
    l: "LockHandleWithNotification st n mode w = Inr st1" and
    nm: "mNodeMap st1 = (mNodeMap st)(node p \<mapsto> grant_id mode (handleId p) nd)" and
    ho: "handleObjs st1 = (handleObjs st)(n \<mapsto> p\<lparr>locked := True\<rparr>)" and
    hm: "mHandleMap st1 = mHandleMap st" and
    dm: "dom (mSessionMap st1) = dom (mSessionMap st)" and
    nt: "\<forall>sid y. notified st1 sid y =
                (notified st sid y
                 \<or> (sid = sessionPtr p \<and> sid \<in> dom (mSessionMap st)
                    \<and> y = Notification (handleId p)
                            (EventLockGranted (mNextEventId st) mode (lockGeneration nd))))"
    by blast
  have k1: "mNodeMap st1 key = Some (grant_id mode n nd)"
    using nm p by simp
  have w1: "\<forall>m\<in>set ns. \<exists>q. handleObjs st1 m = Some q \<and> handleId q = m \<and> node q = key \<and> m \<noteq> hid"
    using Cons.prems(3) ho p by auto
  from Cons.IH [OF k1 Cons.prems(2) w1] obtain st' where
    g: "grant_loop st1 hid ns mode w = Inr st'" and
    nm': "mNodeMap st' = (mNodeMap st1)(key \<mapsto> fold (grant_id mode) ns (grant_id mode n nd))" and
    ho': "\<forall>m. handleObjs st' m =
              (if m \<in> set ns then map_option (\<lambda>p. p\<lparr>locked := True\<rparr>) (handleObjs st1 m)
               else handleObjs st1 m)" and
    hm': "mHandleMap st' = mHandleMap st1" and
    dm': "dom (mSessionMap st') = dom (mSessionMap st1)" and
    nt': "\<forall>sid y. notified st1 sid y \<longrightarrow> notified st' sid y" and
    gr': "\<forall>m\<in>set ns. \<forall>q. handleObjs st1 m = Some q \<longrightarrow> sessionPtr q \<in> dom (mSessionMap st1) \<longrightarrow>
            (\<exists>i. notified st' (sessionPtr q)
                   (Notification m (EventLockGranted i mode (lockGeneration (grant_id mode n nd)))))"
    by blast
  have c1: "grant_loop st hid (n # ns) mode w = Inr st'"
    using p l g by simp
  have c2: "mNodeMap st' = (mNodeMap st)(key \<mapsto> fold (grant_id mode) (n # ns) nd)"
    using nm' nm p by simp
  have c3: "\<forall>m. handleObjs st' m =
              (if m \<in> set (n # ns) then map_option (\<lambda>p. p\<lparr>locked := True\<rparr>) (handleObjs st m)
               else handleObjs st m)"
    using ho' ho p by auto
  have c4: "mHandleMap st' = mHandleMap st" using hm hm' by simp
  have c5: "dom (mSessionMap st') = dom (mSessionMap st)" using dm dm' by simp
  have c6: "\<forall>sid y. notified st sid y \<longrightarrow> notified st' sid y" using nt nt' by blast
  have c7: "\<forall>m\<in>set (n # ns). \<forall>q. handleObjs st m = Some q \<longrightarrow>
            sessionPtr q \<in> dom (mSessionMap st) \<longrightarrow>
            (\<exists>i. notified st' (sessionPtr q)
                   (Notification m (EventLockGranted i mode (lockGeneration nd))))"
  proof (intro ballI allI impI)
    fix m q
    assume m: "m \<in> set (n # ns)" and q: "handleObjs st m = Some q"
      and sq: "sessionPtr q \<in> dom (mSessionMap st)"
    show "\<exists>i. notified st' (sessionPtr q)
                   (Notification m (EventLockGranted i mode (lockGeneration nd)))"
    proof (cases "m = n")
      case True
      with q p have "q = p" by simp
      with nt sq p True have "notified st1 (sessionPtr q)
          (Notification m (EventLockGranted (mNextEventId st) mode (lockGeneration nd)))"
        by simp
      with nt' show ?thesis by blast
    next
      case False
      with m have mns: "m \<in> set ns" by simp
      from False q ho have "handleObjs st1 m = Some q" by simp
      with gr' mns sq dm show ?thesis by simp
    qed
  qed
  from c1 c2 c3 c4 c5 c6 c7 show ?case by blast
qed

lemma fold_grant_id_fields [simp]:
  "lockGeneration (fold (grant_id mode) ns nd) = lockGeneration nd"
  "currentLockMode (fold (grant_id mode) ns nd) = currentLockMode nd"
  "pendingLockRequests (fold (grant_id mode) ns nd) = pendingLockRequests nd"
  "handleMap (fold (grant_id mode) ns nd) = handleMap nd"
  "fd (fold (grant_id mode) ns nd) = fd nd"
  by (induction ns arbitrary: nd; simp)+



lemma dequeue_shared_eq:
  "dequeue_shared st q =
     (map req_handle (filter (live st) (takeWhile is_shared q)), dropWhile is_shared q)"
  by (induction q) (auto simp: live_def is_shared_def split: option.splits)


lemma dequeue_pending_eq:
  "dequeue_pending st q = (next_mode q, granted st q, drop (length (dequeued q)) q)"
proof (cases q)
  case Nil
  then show ?thesis by (simp add: dequeue_pending_def next_mode_def granted_def dequeued_def)
next
  case (Cons r rs)
  show ?thesis
  proof (cases "req_mode r = LOCK_MODE_EXCLUSIVE")
    case True
    with Cons show ?thesis
      by (auto simp: dequeue_pending_def next_mode_def granted_def dequeued_def live_def
               split: option.splits)
  next
    case False
    with Cons have d: "dequeued q = takeWhile is_shared q" by (simp add: dequeued_def)
    have "drop (length (takeWhile is_shared q)) q = dropWhile is_shared q"
      by (simp add: dropWhile_eq_drop)
    with d False Cons dequeue_shared_eq [of st q] show ?thesis
      by (simp add: dequeue_pending_def next_mode_def granted_def)
  qed
qed

lemma next_mode_cases:
  "q \<noteq> [] \<Longrightarrow> next_mode q = LOCK_MODE_SHARED \<or> next_mode q = LOCK_MODE_EXCLUSIVE"
  by (cases q) (auto simp: next_mode_def)

lemma deliver_loop_notified:
  "deliver_loop objs hs (ev, sm, n) = (ev', sm', n') \<Longrightarrow>
   sm sid = Some s \<Longrightarrow> y \<in> set (notifications s) \<Longrightarrow>
   \<exists>s'. sm' sid = Some s' \<and> y \<in> set (notifications s')"
proof (induction hs arbitrary: ev sm n s)
  case Nil
  then show ?case by simp
next
  case (Cons h hs)
  show ?case
  proof (cases "objs h")
    case None
    with Cons.prems have "deliver_loop objs hs (ev, sm, n) = (ev', sm', n')" by simp
    from Cons.IH [OF this Cons.prems(2,3)] show ?thesis .
  next
    case (Some hp)
    show ?thesis
    proof (cases "eventMask hp AND GetMask ev \<noteq> 0")
      case True
      let ?sm1 = "session_update (sessionPtr hp)
                    (session_AddNotification (Notification h (body ev))) sm"
      from True Cons.prems Some have
        d: "deliver_loop objs hs (IncrementNotificationCount ev, ?sm1, n + 1) = (ev', sm', n')"
        by simp
      have "\<exists>s1. ?sm1 sid = Some s1 \<and> y \<in> set (notifications s1)"
      proof (cases "sid = sessionPtr hp")
        case True
        with Cons.prems(2,3) show ?thesis
          by (simp add: session_update_def session_AddNotification_def)
      next
        case False
        with Cons.prems(2,3) show ?thesis
          by (simp add: session_update_def split: option.splits)
      qed
      then obtain s1 where "?sm1 sid = Some s1" "y \<in> set (notifications s1)" by blast
      from Cons.IH [OF d this] show ?thesis .
    next
      case False
      with Cons.prems Some have "deliver_loop objs hs (ev, sm, n) = (ev', sm', n')" by simp
      from Cons.IH [OF this Cons.prems(2,3)] show ?thesis .
    qed
  qed
qed

lemma emit_notified: "notified st sid y \<Longrightarrow> notified (emit st nd mk w) sid y"
proof -
  assume a: "notified st sid y"
  let ?st = "st\<lparr>mNextEventId := mNextEventId st + 1\<rparr>"
  let ?ev = "new_event (mk (mNextEventId st))"
  obtain ev' sm' n' where
    d: "deliver_loop (handleObjs ?st) (handleMap nd) (?ev, mSessionMap ?st, 0) = (ev', sm', n')"
    by (cases "deliver_loop (handleObjs ?st) (handleMap nd) (?ev, mSessionMap ?st, 0)") auto
  from a obtain s where s: "mSessionMap ?st sid = Some s" "y \<in> set (notifications s)"
    by (auto simp: notified_def split: option.splits)
  from deliver_loop_notified [OF d s] d show ?thesis
    by (auto simp: emit_def DeliverEventNotifications_def notified_def)
qed

lemma released_fields [simp]:
  "lockGeneration (released hp nd) = lockGeneration nd"
  "pendingLockRequests (released hp nd) = pendingLockRequests nd"
  "fd (released hp nd) = fd nd"
  "handleMap (released hp nd) = handleMap nd"
  by (simp_all add: released_def)

lemma live_cong:
  assumes "mHandleMap st' = mHandleMap st"
    and "\<forall>m. (handleObjs st' m = None) = (handleObjs st m = None)"
  shows "live st' = live st"
proof (rule ext)
  fix r
  from assms(2) have "(handleObjs st' (req_handle r) = None) = (handleObjs st (req_handle r) = None)"
    by blast
  then show "live st' r = live st r"
    by (cases "handleObjs st' (req_handle r)"; cases "handleObjs st (req_handle r)")
       (simp_all add: live_def GetHandleData_def assms(1))
qed

lemma ReleaseLock_effect:
  assumes ho: "handleObjs st h = Some hp" and lk: "locked hp"
    and nd: "mNodeMap st (node hp) = Some nd"
    and ex: "exclusiveLockHandle nd \<noteq> 0 \<longrightarrow> handleId hp = exclusiveLockHandle nd"
    and sh: "exclusiveLockHandle nd = 0 \<longrightarrow> handleId hp \<in> sharedLockHandles nd"
    and wr: "granted st (pendingLockRequests nd) \<noteq> [] \<longrightarrow>
             sys_fsetxattr_u64 env (fd nd) ''lock.generation'' (lockGeneration nd + 1) = None"
    and wf: "\<forall>n\<in>set (granted st (pendingLockRequests nd)).
               \<forall>p. handleObjs st n = Some p \<longrightarrow>
                   handleId p = n \<and> node p = node hp \<and> n \<noteq> handleId hp \<and> n \<noteq> h"
  shows "\<exists>st'. ReleaseLock env st h w = Inr st'
      \<and> mNodeMap st' = (mNodeMap st)(node hp \<mapsto> after_release st hp nd)
      \<and> (\<forall>m. handleObjs st' m =
              (if m \<in> set (granted st (pendingLockRequests nd))
               then map_option (\<lambda>p. p\<lparr>locked := True\<rparr>) (handleObjs st m)
               else ((handleObjs st)(h \<mapsto> hp\<lparr>locked := False\<rparr>)) m))
      \<and> mHandleMap st' = mHandleMap st
      \<and> (\<forall>sid y. notified st sid y \<longrightarrow> notified st' sid y)
      \<and> (\<forall>n\<in>set (granted st (pendingLockRequests nd)).
            \<forall>p. handleObjs st n = Some p \<longrightarrow> sessionPtr p \<in> dom (mSessionMap st) \<longrightarrow>
            (\<exists>i. notified st' (sessionPtr p)
                   (Notification n (EventLockGranted i (next_mode (pendingLockRequests nd))
                                      (lockGeneration nd + 1)))))"
proof -
  define key where "key = node hp"
  define q where "q = pendingLockRequests nd"
  define nd1 where "nd1 = released hp nd"
  define st1 where "st1 = (put_node key nd1 st)
                             \<lparr>handleObjs := (handleObjs st)(h \<mapsto> hp\<lparr>locked := False\<rparr>)\<rparr>"
  define st2 where "st2 = (if sharedLockHandles nd1 = {}
                            then emit st1 nd1 EventLockReleased w else st1)"
  define nd2 where "nd2 = nd1\<lparr>currentLockMode := 0\<rparr>"
  define st3 where "st3 = put_node key nd2 st2"
  define rest where "rest = drop (length (dequeued q)) q"
  define gs where "gs = granted st q"
  define nm where "nm = next_mode q"
  have R: "ReleaseLock env st h w = release_grant env st3 (hp\<lparr>locked := False\<rparr>) nd2 w"
    using ho lk nd ex sh
    by (auto simp: ReleaseLock_def Let_def released_def key_def nd1_def st1_def st2_def
                   nd2_def st3_def)
  have m3: "mNodeMap st3 = (mNodeMap st)(key \<mapsto> nd2)"
    by (simp add: st3_def st2_def st1_def)
  have h3: "handleObjs st3 = (handleObjs st)(h \<mapsto> hp\<lparr>locked := False\<rparr>)"
    by (simp add: st3_def st2_def st1_def)
  have t3: "mHandleMap st3 = mHandleMap st"
    by (simp add: st3_def st2_def st1_def)
  have d3: "dom (mSessionMap st3) = dom (mSessionMap st)"
    by (simp add: st3_def st2_def st1_def)
  have n1: "\<And>sid y. notified st1 sid y = notified st sid y"
    by (simp add: notified_def st1_def)
  have n3: "\<And>sid y. notified st sid y \<Longrightarrow> notified st3 sid y"
  proof -
    fix sid y
    assume "notified st sid y"
    then have "notified st1 sid y" by (simp add: n1)
    then have "notified st2 sid y" by (simp add: st2_def emit_notified)
    then show "notified st3 sid y" by (simp add: notified_def st3_def)
  qed
  have q2: "pendingLockRequests nd2 = q" by (simp add: nd2_def nd1_def q_def)
  have "live st3 = live st"
    by (rule live_cong) (use t3 h3 ho in auto)
  then have g3: "granted st3 q = gs" by (simp add: granted_def gs_def)
  have dq: "dequeue_pending st3 q = (nm, gs, rest)"
    by (simp add: dequeue_pending_eq g3 nm_def rest_def)
  have AR: "after_release st hp nd =
      (if gs = [] then nd2\<lparr>pendingLockRequests := rest\<rparr>
       else fold (grant_id nm) gs
              (nd2\<lparr>pendingLockRequests := rest, lockGeneration := lockGeneration nd + 1,
                    currentLockMode := nm\<rparr>))"
    by (simp add: after_release_def Let_def q_def [symmetric] gs_def nm_def rest_def
                  nd2_def nd1_def)
  show ?thesis
  proof (cases "gs = []")
    case True
    have rg: "release_grant env st3 (hp\<lparr>locked := False\<rparr>) nd2 w
                = Inr (put_node key (nd2\<lparr>pendingLockRequests := rest\<rparr>) st3)"
    proof (cases "q = []")
      case qe: True
      then have "rest = []" by (simp add: rest_def)
      with qe q2 have "nd2\<lparr>pendingLockRequests := rest\<rparr> = nd2" by simp
      moreover have "put_node key nd2 st3 = st3"
        by (simp add: st3_def put_node_def)
      ultimately show ?thesis using qe q2 by (simp add: release_grant_def)
    next
      case False
      with q2 dq True show ?thesis
        by (simp add: release_grant_def Let_def key_def)
    qed
    let ?st' = "put_node key (nd2\<lparr>pendingLockRequests := rest\<rparr>) st3"
    have "mNodeMap ?st' = (mNodeMap st)(node hp \<mapsto> after_release st hp nd)"
      using True by (simp add: AR m3 key_def)
    moreover have "\<forall>sid y. notified st sid y \<longrightarrow> notified ?st' sid y"
      using n3 by (simp add: notified_def)
    ultimately show ?thesis
      using R rg True h3 t3 by (simp add: gs_def [symmetric] q_def [symmetric])
  next
    case False
    then have qne: "q \<noteq> []" by (auto simp: gs_def granted_def dequeued_def)
    from False wr have w1:
      "sys_fsetxattr_u64 env (fd nd) ''lock.generation'' (lockGeneration nd + 1) = None"
      by (simp add: gs_def q_def)
    define ndg where "ndg = nd2\<lparr>pendingLockRequests := rest,
                                lockGeneration := lockGeneration nd + 1, currentLockMode := nm\<rparr>"
    define stg where "stg = put_node key ndg st3"
    have kg: "mNodeMap stg key = Some ndg" by (simp add: stg_def)
    have mg: "nm = LOCK_MODE_SHARED \<or> nm = LOCK_MODE_EXCLUSIVE"
      using qne by (simp add: nm_def next_mode_cases)
    have live_obj: "\<And>n. n \<in> set gs \<Longrightarrow> \<exists>p. handleObjs st n = Some p"
      by (auto simp: gs_def granted_def live_def GetHandleData_def split: if_splits)
    have wg: "\<forall>n\<in>set gs. \<exists>p. handleObjs stg n = Some p \<and> handleId p = n \<and> node p = key
                 \<and> n \<noteq> handleId (hp\<lparr>locked := False\<rparr>)"
    proof
      fix n assume n: "n \<in> set gs"
      from live_obj [OF n] obtain p where p: "handleObjs st n = Some p" by blast
      from wf n p have "handleId p = n \<and> node p = node hp \<and> n \<noteq> handleId hp \<and> n \<noteq> h"
        by (simp add: gs_def q_def)
      with p show "\<exists>p. handleObjs stg n = Some p \<and> handleId p = n \<and> node p = key
                 \<and> n \<noteq> handleId (hp\<lparr>locked := False\<rparr>)"
        by (simp add: stg_def h3 key_def)
    qed
    from grant_loop_effect [OF kg mg wg, of w] obtain st4 where
      g: "grant_loop stg (handleId (hp\<lparr>locked := False\<rparr>)) gs nm w = Inr st4" and
      m4: "mNodeMap st4 = (mNodeMap stg)(key \<mapsto> fold (grant_id nm) gs ndg)" and
      h4: "\<forall>m. handleObjs st4 m =
              (if m \<in> set gs then map_option (\<lambda>p. p\<lparr>locked := True\<rparr>) (handleObjs stg m)
               else handleObjs stg m)" and
      t4: "mHandleMap st4 = mHandleMap stg" and
      d4: "dom (mSessionMap st4) = dom (mSessionMap stg)" and
      n4: "\<forall>sid y. notified stg sid y \<longrightarrow> notified st4 sid y" and
      e4: "\<forall>n\<in>set gs. \<forall>p. handleObjs stg n = Some p \<longrightarrow>
             sessionPtr p \<in> dom (mSessionMap stg) \<longrightarrow>
            (\<exists>i. notified st4 (sessionPtr p)
                   (Notification n (EventLockGranted i nm (lockGeneration ndg))))"
      by blast
    let ?st' = "emit st4 (fold (grant_id nm) gs ndg) (\<lambda>i. EventLockAcquired i nm) w"
    have w2: "sys_fsetxattr_u64 env (fd (nd2\<lparr>pendingLockRequests := rest\<rparr>)) ''lock.generation''
                (lockGeneration (nd2\<lparr>pendingLockRequests := rest\<rparr>) + 1) = None"
      using w1 by (simp add: nd2_def nd1_def)
    have rg: "release_grant env st3 (hp\<lparr>locked := False\<rparr>) nd2 w = Inr ?st'"
      using qne q2 dq False w2 g m4
      by (simp add: release_grant_def Let_def key_def stg_def ndg_def nd2_def nd1_def)
    have c2: "mNodeMap ?st' = (mNodeMap st)(node hp \<mapsto> after_release st hp nd)"
      using False by (simp add: AR m4 stg_def m3 key_def ndg_def)
    have c3: "\<forall>m. handleObjs ?st' m =
              (if m \<in> set gs then map_option (\<lambda>p. p\<lparr>locked := True\<rparr>) (handleObjs st m)
               else ((handleObjs st)(h \<mapsto> hp\<lparr>locked := False\<rparr>)) m)"
    proof
      fix m
      show "handleObjs ?st' m =
              (if m \<in> set gs then map_option (\<lambda>p. p\<lparr>locked := True\<rparr>) (handleObjs st m)
               else ((handleObjs st)(h \<mapsto> hp\<lparr>locked := False\<rparr>)) m)"
      proof (cases "m \<in> set gs")
        case True
        from live_obj [OF True] obtain p where p: "handleObjs st m = Some p" by blast
        with wf True have "m \<noteq> h" by (simp add: gs_def q_def)
        with True h4 show ?thesis by (simp add: stg_def h3)
      next
        case False
        with h4 show ?thesis by (simp add: stg_def h3)
      qed
    qed
    have c4: "mHandleMap ?st' = mHandleMap st" by (simp add: t4 stg_def t3)
    have c5: "\<forall>sid y. notified st sid y \<longrightarrow> notified ?st' sid y"
    proof (intro allI impI)
      fix sid y assume "notified st sid y"
      then have "notified st3 sid y" by (rule n3)
      then have "notified stg sid y" by (simp add: notified_def stg_def)
      with n4 have "notified st4 sid y" by blast
      then show "notified ?st' sid y" by (rule emit_notified)
    qed
    have c6: "\<forall>n\<in>set gs. \<forall>p. handleObjs st n = Some p \<longrightarrow>
             sessionPtr p \<in> dom (mSessionMap st) \<longrightarrow>
            (\<exists>i. notified ?st' (sessionPtr p)
                   (Notification n (EventLockGranted i nm (lockGeneration nd + 1))))"
    proof (intro ballI allI impI)
      fix n p
      assume n: "n \<in> set gs" and p: "handleObjs st n = Some p"
        and s: "sessionPtr p \<in> dom (mSessionMap st)"
      from wf n p have "n \<noteq> h" by (simp add: gs_def q_def)
      with p have pg: "handleObjs stg n = Some p" by (simp add: stg_def h3)
      have "sessionPtr p \<in> dom (mSessionMap stg)"
        using s d3 by (simp add: stg_def)
      with e4 n pg obtain i where
        "notified st4 (sessionPtr p) (Notification n (EventLockGranted i nm (lockGeneration ndg)))"
        by blast
      then have "notified ?st' (sessionPtr p)
                   (Notification n (EventLockGranted i nm (lockGeneration ndg)))"
        by (rule emit_notified)
      then show "\<exists>i. notified ?st' (sessionPtr p)
                   (Notification n (EventLockGranted i nm (lockGeneration nd + 1)))"
        by (auto simp: ndg_def)
    qed
    from R rg c2 c3 c4 c5 c6 show ?thesis
      by (simp add: gs_def [symmetric] q_def [symmetric] nm_def [symmetric])
  qed
qed

lemma after_release_fields:
  "pendingLockRequests (after_release st hp nd)
     = drop (length (dequeued (pendingLockRequests nd))) (pendingLockRequests nd)"
  "lockGeneration (after_release st hp nd)
     = (if granted st (pendingLockRequests nd) = [] then lockGeneration nd
        else lockGeneration nd + 1)"
  "currentLockMode (after_release st hp nd)
     = (if granted st (pendingLockRequests nd) = [] then 0
        else next_mode (pendingLockRequests nd))"
  by (simp_all add: after_release_def Let_def)


lemma released_exclusive [simp]: "exclusiveLockHandle (released hp nd) = 0"
  by (simp add: released_def)

lemma ReleaseLock_exit:
  assumes ho: "handleObjs st h = Some hp" and lk: "locked hp"
    and nd: "mNodeMap st (node hp) = Some nd"
    and hd: "holder hp nd"
    and gr: "granted st (pendingLockRequests nd) \<noteq> []"
    and wr: "sys_fsetxattr_u64 env (fd nd) ''lock.generation'' (lockGeneration nd + 1) = Some e"
  shows "ReleaseLock env st h w = Inl ProcessExit"
proof -
  define key where "key = node hp"
  define q where "q = pendingLockRequests nd"
  define nd1 where "nd1 = released hp nd"
  define st1 where "st1 = (put_node key nd1 st)
                             \<lparr>handleObjs := (handleObjs st)(h \<mapsto> hp\<lparr>locked := False\<rparr>)\<rparr>"
  define st2 where "st2 = (if sharedLockHandles nd1 = {}
                            then emit st1 nd1 EventLockReleased w else st1)"
  define nd2 where "nd2 = nd1\<lparr>currentLockMode := 0\<rparr>"
  define st3 where "st3 = put_node key nd2 st2"
  have R: "ReleaseLock env st h w = release_grant env st3 (hp\<lparr>locked := False\<rparr>) nd2 w"
    using ho lk nd hd
    by (auto simp: ReleaseLock_def Let_def released_def key_def nd1_def st1_def st2_def
                   nd2_def st3_def holder_def split: if_splits)
  have h3: "handleObjs st3 = (handleObjs st)(h \<mapsto> hp\<lparr>locked := False\<rparr>)"
    by (simp add: st3_def st2_def st1_def)
  have t3: "mHandleMap st3 = mHandleMap st"
    by (simp add: st3_def st2_def st1_def)
  have q2: "pendingLockRequests nd2 = q" by (simp add: nd2_def nd1_def q_def)
  have "live st3 = live st"
    by (rule live_cong) (use t3 h3 ho in auto)
  then have g3: "granted st3 q = granted st q" by (simp add: granted_def)
  have dq: "dequeue_pending st3 q = (next_mode q, granted st q, drop (length (dequeued q)) q)"
    by (simp add: dequeue_pending_eq g3)
  from gr have qne: "q \<noteq> []" by (auto simp: q_def granted_def dequeued_def)
  from qne q2 dq gr wr have "release_grant env st3 (hp\<lparr>locked := False\<rparr>) nd2 w = Inl ProcessExit"
    by (simp add: release_grant_def Let_def q_def [symmetric] nd2_def nd1_def)
  with R show ?thesis by simp
qed

section \<open>The queue and the generation across requests\<close>

text \<open>
  What each method does to the queue and the generation of every node: event delivery
  and the marking of a granted handle leave them alone; a \<^verbatim>\<open>release\<close> drops the
  dequeued prefix and adds one to the generation when it grants; a \<^verbatim>\<open>lock\<close> appends
  its request or adds one to the generation; closing a handle and the expiry of a
  session leave them alone or remove the node; \<^verbatim>\<open>open\<close> may add a node with an empty
  queue.
\<close>

lemma emit_lock_state [simp]: "lock_state (emit st nd mk w) = lock_state st"
  by (rule ext) (simp add: lock_state_def)

lemma LockHandle_lock_state:
  "LockHandle st h mode = Inr st' \<Longrightarrow> lock_state st' = lock_state st"
  by (rule ext) (auto simp: LockHandle_def lock_state_def split: option.splits if_splits)

lemma LockHandleWithNotification_lock_state:
  "LockHandleWithNotification st h mode w = Inr st' \<Longrightarrow> lock_state st' = lock_state st"
  by (rule ext)
     (auto simp: LockHandleWithNotification_def lock_state_def
           split: option.splits sum.splits dest!: LockHandle_lock_state [THEN fun_cong])

lemma grant_loop_lock_state:
  "grant_loop st hid ns mode w = Inr st' \<Longrightarrow> lock_state st' = lock_state st"
proof (induction ns arbitrary: st)
  case Nil
  then show ?case by simp
next
  case (Cons n ns)
  from Cons.prems obtain st1 where
    a: "LockHandleWithNotification st n mode w = Inr st1" and
    b: "grant_loop st1 hid ns mode w = Inr st'"
    by (auto split: option.splits if_splits sum.splits)
  from LockHandleWithNotification_lock_state [OF a] Cons.IH [OF b] show ?case by simp
qed

lemma put_node_lock_state [simp]:
  "lock_state (put_node k nd st) = (lock_state st)(k \<mapsto> (pendingLockRequests nd, lockGeneration nd))"
  by (rule ext) (simp add: lock_state_def)

lemma handleObjs_update_lock_state [simp]:
  "lock_state (st\<lparr>handleObjs := x\<rparr>) = lock_state st"
  by (rule ext) (simp add: lock_state_def)

lemma lock_state_Some:
  "mNodeMap st k = Some nd \<Longrightarrow> lock_state st k = Some (pendingLockRequests nd, lockGeneration nd)"
  by (simp add: lock_state_def)

lemma release_grant_lock_state:
  assumes "release_grant env st hp nd w = Inr st'"
    and "mNodeMap st (node hp) = Some nd"
  shows "lock_state st' =
         (lock_state st)(node hp \<mapsto>
            (drop (length (dequeued (pendingLockRequests nd))) (pendingLockRequests nd),
             lockGeneration nd + (if granted st (pendingLockRequests nd) = [] then 0 else 1)))"
proof (cases "pendingLockRequests nd = []")
  case True
  with assms have "st' = st" by (simp add: release_grant_def)
  moreover have "(lock_state st)(node hp \<mapsto> ([], lockGeneration nd)) = lock_state st"
    using lock_state_Some [OF assms(2)] True by (auto simp: fun_upd_idem)
  ultimately show ?thesis using True by (simp add: granted_def dequeued_def)
next
  case False
  let ?q = "pendingLockRequests nd"
  note dq = dequeue_pending_eq [of st ?q]
  show ?thesis
  proof (cases "granted st ?q = []")
    case True
    with assms False dq show ?thesis by (auto simp: release_grant_def Let_def)
  next
    case g: False
    from assms(1) False dq g obtain st3 nd3 where
      gl: "grant_loop (put_node (node hp)
              (nd\<lparr>pendingLockRequests := drop (length (dequeued ?q)) ?q,
                   lockGeneration := lockGeneration nd + 1, currentLockMode := next_mode ?q\<rparr>) st)
             (handleId hp) (granted st ?q) (next_mode ?q) w = Inr st3" and
      st': "st' = emit st3 nd3 (\<lambda>i. EventLockAcquired i (next_mode ?q)) w"
      by (auto simp: release_grant_def Let_def split: option.splits sum.splits)
    from grant_loop_lock_state [OF gl] st' g show ?thesis by simp
  qed
qed

lemma ReleaseLock_lock_state:
  assumes "ReleaseLock env st h w = Inr st'"
    and "handleObjs st h = Some hp" and "mNodeMap st (node hp) = Some nd"
  shows "lock_state st' =
         (if locked hp then
            (lock_state st)(node hp \<mapsto>
              (drop (length (dequeued (pendingLockRequests nd))) (pendingLockRequests nd),
               lockGeneration nd + (if granted st (pendingLockRequests nd) = [] then 0 else 1)))
          else lock_state st)"
proof (cases "locked hp")
  case False
  with assms show ?thesis by (simp add: ReleaseLock_def)
next
  case True
  define key where "key = node hp"
  define nd1 where "nd1 = released hp nd"
  define st1 where "st1 = (put_node key nd1 st)
                             \<lparr>handleObjs := (handleObjs st)(h \<mapsto> hp\<lparr>locked := False\<rparr>)\<rparr>"
  define st2 where "st2 = (if sharedLockHandles nd1 = {}
                            then emit st1 nd1 EventLockReleased w else st1)"
  define nd2 where "nd2 = nd1\<lparr>currentLockMode := 0\<rparr>"
  define st3 where "st3 = put_node key nd2 st2"
  from assms True have R: "release_grant env st3 (hp\<lparr>locked := False\<rparr>) nd2 w = Inr st'"
    by (auto simp: ReleaseLock_def Let_def released_def key_def nd1_def st1_def st2_def
                   nd2_def st3_def split: if_splits)
  have m3: "mNodeMap st3 (node (hp\<lparr>locked := False\<rparr>)) = Some nd2"
    by (simp add: st3_def key_def)
  have h3: "handleObjs st3 = (handleObjs st)(h \<mapsto> hp\<lparr>locked := False\<rparr>)"
    by (simp add: st3_def st2_def st1_def)
  have t3: "mHandleMap st3 = mHandleMap st"
    by (simp add: st3_def st2_def st1_def)
  have "live st3 = live st"
    by (rule live_cong) (use t3 h3 assms(2) in auto)
  then have g3: "granted st3 = granted st" by (rule_tac ext) (simp add: granted_def)
  have q2: "pendingLockRequests nd2 = pendingLockRequests nd" "lockGeneration nd2 = lockGeneration nd"
    by (simp_all add: nd2_def nd1_def)
  have l3: "lock_state st3 = lock_state st"
    using lock_state_Some [OF assms(3)]
    by (auto simp: st3_def st2_def st1_def q2 nd1_def key_def fun_upd_idem)
  from release_grant_lock_state [OF R m3] True show ?thesis
    by (simp add: g3 q2 l3)
qed

lemma push_pending_lock_state:
  "lock_state (push_pending st k nd h mode)
     = (lock_state st)(k \<mapsto> (pendingLockRequests nd @ [LockRequest h mode], lockGeneration nd))"
  by (simp add: push_pending_def)

lemma lock_acquire_lock_state:
  assumes "lock_acquire env st h hp nd mode = Inr (st', r)"
  shows "lock_state st' = (lock_state st)(node hp \<mapsto> (pendingLockRequests nd, lockGeneration nd + 1))
         \<and> r = ResponseLockGranted LOCK_STATUS_GRANTED (lockGeneration nd + 1)"
proof -
  let ?st1 = "put_node (node hp) (nd\<lparr>lockGeneration := lockGeneration nd + 1,
                                       currentLockMode := mode\<rparr>) st"
  from assms obtain st2 nd2 where
    l: "LockHandle ?st1 h mode = Inr st2" and n2: "mNodeMap st2 (node hp) = Some nd2" and
    s: "st' = (if \<not> (mode = LOCK_MODE_SHARED \<and> sharedLockHandles nd \<noteq> {})
               then emit st2 nd2 (\<lambda>i. EventLockAcquired i mode) default_waitForNotify else st2)" and
    r: "r = ResponseLockGranted LOCK_STATUS_GRANTED (lockGeneration nd2)"
    by (auto simp: lock_acquire_def Let_def split: option.splits sum.splits)
  from LockHandle_lock_state [OF l] have ls: "lock_state st2 = lock_state ?st1" .
  from fun_cong [OF ls, of "node hp"] n2 have "lockGeneration nd2 = lockGeneration nd + 1"
    by (simp add: lock_state_def)
  with ls s r show ?thesis by simp
qed

lemma kept_or_gone_refl [simp]: "kept_or_gone st st"
  by (simp add: kept_or_gone_def)

lemma kept_or_gone_eq: "lock_state st' = lock_state st \<Longrightarrow> kept_or_gone st st'"
  by (simp add: kept_or_gone_def)

lemma kept_or_gone_trans:
  "kept_or_gone st st1 \<Longrightarrow> kept_or_gone st1 st2 \<Longrightarrow> kept_or_gone st st2"
  unfolding kept_or_gone_def by metis

lemma lock_state_fields [simp]:
  "lock_state (st\<lparr>mSessionMap := a\<rparr>) = lock_state st"
  "lock_state (st\<lparr>mSessionHeap := b\<rparr>) = lock_state st"
  "lock_state (st\<lparr>mHandleMap := c\<rparr>) = lock_state st"
  "lock_state (st\<lparr>mNextHandleNumber := d\<rparr>) = lock_state st"
  "lock_state (st\<lparr>mNextSessionId := e\<rparr>) = lock_state st"
  "lock_state (st\<lparr>mNextEventId := f\<rparr>) = lock_state st"
  by (rule ext, simp add: lock_state_def)+

lemma lock_state_erase [simp]:
  "lock_state (st\<lparr>mNodeMap := (mNodeMap st)(k := None)\<rparr>) = (lock_state st)(k := None)"
  by (rule ext) (simp add: lock_state_def)

lemma DestroyHandle_lock_state:
  "DestroyHandle env st h w = Inr (st', r) \<Longrightarrow> kept_or_gone st st'"
proof -
  assume a: "DestroyHandle env st h w = Inr (st', r)"
  then obtain hp nd where hp: "handleObjs st h = Some hp" and nd: "mNodeMap st (node hp) = Some nd"
    by (auto simp: DestroyHandle_def split: option.splits)
  have c: "pendingLockRequests (fst (node_Close env (node_RemoveHandle (handleId hp) nd)))
             = pendingLockRequests nd"
          "lockGeneration (fst (node_Close env (node_RemoveHandle (handleId hp) nd)))
             = lockGeneration nd"
          "pendingLockRequests (node_RemoveHandle (handleId hp) nd) = pendingLockRequests nd"
          "lockGeneration (node_RemoveHandle (handleId hp) nd) = lockGeneration nd"
    by (simp_all add: node_Close_def node_RemoveHandle_def)
  from a hp nd show ?thesis
    by (auto simp: DestroyHandle_def Let_def kept_or_gone_def lock_state_def c
             split: if_splits prod.splits option.splits
             dest!: arg_cong [where f = fst])
qed

lemma RemoveHandleData_lock_state:
  "RemoveHandleData st h = Some (st', hp) \<Longrightarrow> lock_state st' = lock_state st"
  by (auto simp: RemoveHandleData_def split: option.splits)

lemma Close_lock_state:
  "Close env st sid h = Inr (st', r) \<Longrightarrow> kept_or_gone st st'"
  by (auto simp: Close_def split: option.splits sum.splits prod.splits
           dest!: RemoveHandleData_lock_state DestroyHandle_lock_state
           simp: kept_or_gone_def)

lemma destroy_handles_lock_state:
  "destroy_handles env st hs = Inr st' \<Longrightarrow> kept_or_gone st st'"
proof (induction hs arbitrary: st)
  case Nil
  then show ?case by simp
next
  case (Cons h hs)
  show ?case
  proof (cases "RemoveHandleData st h")
    case None
    with Cons show ?thesis by simp
  next
    case (Some p)
    obtain st1 hp where p: "p = (st1, hp)" by (cases p)
    from Cons.prems Some p obtain st2 r where
      d: "DestroyHandle env st1 h False = Inr (st2, r)" and
      r: "destroy_handles env st2 hs = Inr st'"
      by (auto split: sum.splits)
    from RemoveHandleData_lock_state [OF Some [unfolded p]] have "kept_or_gone st st1"
      by (simp add: kept_or_gone_def)
    from kept_or_gone_trans [OF kept_or_gone_trans [OF this DestroyHandle_lock_state [OF d]]
           Cons.IH [OF r]]
    show ?thesis .
  qed
qed

lemma expire_session_lock_state:
  assumes "expire_session env st sid = Inr st'"
  shows "kept_or_gone st st'"
proof -
  let ?st1 = "st\<lparr>mSessionMap := session_update sid Expire (mSessionMap st)\<rparr>"
  have k: "kept_or_gone st ?st1" by (simp add: kept_or_gone_def)
  show ?thesis
  proof (cases "mSessionMap ?st1 sid")
    case None
    with assms have "st' = ?st1" by (simp add: expire_session_def Let_def)
    with k show ?thesis by simp
  next
    case (Some s)
    with assms have "destroy_handles env ?st1 (handles s) = Inr st'"
      by (simp add: expire_session_def Let_def)
    from kept_or_gone_trans [OF k destroy_handles_lock_state [OF this]] show ?thesis .
  qed
qed

lemma NextExpiredSession_lock_state:
  "NextExpiredSession env st = Some (st', sid) \<Longrightarrow> lock_state st' = lock_state st"
  by (auto simp: NextExpiredSession_def split: if_splits option.splits)

lemma RemoveExpiredSessions_lock_state:
  "RemoveExpiredSessions env st = Inr st' \<Longrightarrow> kept_or_gone st st'"
proof (induction env st rule: RemoveExpiredSessions.induct)
  case (1 env st)
  show ?case
  proof (cases "NextExpiredSession env st")
    case None
    with "1.prems" show ?thesis by simp
  next
    case (Some p)
    obtain st1 sid where p: "p = (st1, sid)" by (cases p)
    from "1.prems" Some p obtain st2 where
      e: "expire_session env st1 sid = Inr st2" and
      r: "RemoveExpiredSessions env st2 = Inr st'"
      by (auto split: sum.splits)
    from NextExpiredSession_lock_state [OF Some [unfolded p]] have "kept_or_gone st st1"
      by (simp add: kept_or_gone_def)
    from kept_or_gone_trans [OF kept_or_gone_trans [OF this expire_session_lock_state [OF e]]
           "1.IH" [OF Some p [symmetric] e r]]
    show ?thesis .
  qed
qed

lemma Mkdir_lock_state:
  "Mkdir env st sid nm = Inr (st', r) \<Longrightarrow> lock_state st' = lock_state st"
  by (auto simp: Mkdir_def split: option.splits if_splits)

lemma Delete_lock_state:
  "Delete env st sid nm = Inr (st', r) \<Longrightarrow> lock_state st' = lock_state st"
  by (auto simp: Delete_def split: option.splits if_splits sum.splits)

lemma Exists_lock_state:
  "Exists env st sid nm = Inr (st', r) \<Longrightarrow> lock_state st' = lock_state st"
  by (auto simp: Exists_def split: if_splits)

lemma AttrSet_lock_state:
  "AttrSet env st sid h nm v = Inr (st', r) \<Longrightarrow> lock_state st' = lock_state st"
  by (auto simp: AttrSet_def split: option.splits)

lemma AttrGet_lock_state:
  "AttrGet env st sid h nm = Inr (st', r) \<Longrightarrow> lock_state st' = lock_state st"
  by (auto simp: AttrGet_def split: option.splits sum.splits)

lemma AttrDel_lock_state:
  "AttrDel env st sid h nm = Inr (st', r) \<Longrightarrow> lock_state st' = lock_state st"
  by (auto simp: AttrDel_def split: option.splits)

lemma CreateSession_lock_state:
  "lock_state (fst (CreateSession env st)) = lock_state st"
  by (simp add: CreateSession_def Let_def)

lemma RenewSessionLease_lock_state:
  "lock_state (fst (RenewSessionLease env st sid)) = lock_state st"
  by (simp add: RenewSessionLease_def split: option.splits)

lemma open_node_lock_state:
  "open_node env st nm flags ex rw = Inr (Inr (st', c)) \<Longrightarrow>
   (mNodeMap st nm \<noteq> None \<longrightarrow> lock_state st' = lock_state st)
   \<and> (mNodeMap st nm = None \<longrightarrow> (\<exists>g. lock_state st' = (lock_state st)(nm \<mapsto> ([], g))))"
  by (auto simp: open_node_def new_node_def new_NodeData_def lock_state_Some fun_upd_idem
           split: option.splits sum.splits if_splits prod.splits)

lemma open_handle_lock_state:
  "open_handle st sid nm flags em c = Inr (st', r) \<Longrightarrow> lock_state st' = lock_state st"
  by (auto simp: open_handle_def CreateHandle_def Let_def node_AddHandle_def lock_state_Some
                 fun_upd_idem
           split: option.splits prod.splits if_splits)

lemma Open_lock_state:
  assumes "Open env st sid nm flags em = Inr (st', r)"
  shows "lock_state st' k = lock_state st k
         \<or> (lock_state st k = None \<and> (\<exists>g. lock_state st' k = Some ([], g)))"
proof (cases "st' = st")
  case True
  then show ?thesis by simp
next
  case False
  with assms obtain ex rw st1 c where
    n: "open_node env st nm flags ex rw = Inr (Inr (st1, c))" and
    h: "open_handle st1 sid nm flags em c = Inr (st', r)"
    by (auto simp: Open_def split: option.splits sum.splits if_splits prod.splits)
  note a = open_handle_lock_state [OF h] open_node_lock_state [OF n]
  show ?thesis
  proof (cases "mNodeMap st nm")
    case None
    then have "lock_state st nm = None" by (simp add: lock_state_def)
    with a None show ?thesis by (cases "k = nm") auto
  next
    case (Some nd)
    with a show ?thesis by simp
  qed
qed

lemma Lock_lock_state:
  assumes "Lock env st sid h mode t = Inr (st', r)"
  shows "(r = ResponseLock LOCK_STATUS_PENDING
            \<and> (\<exists>hp nd. GetHandleData st h = Some hp \<and> mNodeMap st (node hp) = Some nd
                 \<and> lock_state st' = (lock_state st)(node hp \<mapsto>
                      (pendingLockRequests nd @ [LockRequest h mode], lockGeneration nd))))
       \<or> (\<exists>hp nd. r = ResponseLockGranted LOCK_STATUS_GRANTED (lockGeneration nd + 1)
                 \<and> GetHandleData st h = Some hp \<and> mNodeMap st (node hp) = Some nd
                 \<and> lock_state st' = (lock_state st)(node hp \<mapsto>
                      (pendingLockRequests nd, lockGeneration nd + 1)))
       \<or> ((\<forall>s g. r \<noteq> ResponseLockGranted s g) \<and> r \<noteq> ResponseLock LOCK_STATUS_PENDING
            \<and> st' = st)"
  using assms
  by (auto simp: Lock_def push_pending_lock_state
           split: option.splits if_splits dest!: lock_acquire_lock_state)

lemma step_lock_state:
  assumes "step env st rq = Inr st'"
  shows "case lock_state st' k of
           None \<Rightarrow> True
         | Some (q', g') \<Rightarrow>
             (case lock_state st k of
                None \<Rightarrow> q' = [] \<and> enqueued_by env st rq k = []
                          \<and> granted_generation env st rq k = None
              | Some (q, g) \<Rightarrow>
                  q' = drop (length (dequeued_by st rq k)) (q @ enqueued_by env st rq k)
                  \<and> (case granted_generation env st rq k of
                        None \<Rightarrow> g' = g
                      | Some x \<Rightarrow> x = g + 1 \<and> g' = g + 1))"
proof -
  have kg: "\<And>st'. kept_or_gone st st' \<Longrightarrow> enqueued_by env st rq k = [] \<Longrightarrow>
            dequeued_by st rq k = [] \<Longrightarrow> granted_generation env st rq k = None \<Longrightarrow>
            (case lock_state st' k of
               None \<Rightarrow> True
             | Some (q', g') \<Rightarrow>
                 (case lock_state st k of
                    None \<Rightarrow> q' = [] \<and> enqueued_by env st rq k = []
                              \<and> granted_generation env st rq k = None
                  | Some (q, g) \<Rightarrow>
                      q' = drop (length (dequeued_by st rq k)) (q @ enqueued_by env st rq k)
                      \<and> (case granted_generation env st rq k of
                            None \<Rightarrow> g' = g
                          | Some x \<Rightarrow> x = g + 1 \<and> g' = g + 1)))"
    by (auto simp: kept_or_gone_def split: option.splits dest: spec [where x = k])
  show ?thesis
  proof (cases rq)
    case ReqCreateSession
    with assms have "kept_or_gone st st'"
      by (auto intro!: kept_or_gone_eq CreateSession_lock_state)
    then show ?thesis
      by (rule kg) (simp_all add: ReqCreateSession enqueued_by_def dequeued_by_def
                      releases_on_def granted_generation_def)
  next
    case (ReqRenewSessionLease sid)
    with assms have "kept_or_gone st st'"
      by (auto intro!: kept_or_gone_eq RenewSessionLease_lock_state)
    then show ?thesis
      by (rule kg) (simp_all add: ReqRenewSessionLease enqueued_by_def dequeued_by_def
                      releases_on_def granted_generation_def)
  next
    case ReqRemoveExpiredSessions
    with assms have "kept_or_gone st st'"
      by (auto intro!: RemoveExpiredSessions_lock_state)
    then show ?thesis
      by (rule kg) (simp_all add: ReqRemoveExpiredSessions enqueued_by_def dequeued_by_def
                      releases_on_def granted_generation_def)
  next
    case (ReqMkdir sid nm)
    with assms have "kept_or_gone st st'"
      by (auto dest!: state_of_Inr Mkdir_lock_state intro!: kept_or_gone_eq)
    then show ?thesis
      by (rule kg) (simp_all add: ReqMkdir enqueued_by_def dequeued_by_def
                      releases_on_def granted_generation_def)
  next
    case (ReqDelete sid nm)
    with assms have "kept_or_gone st st'"
      by (auto dest!: state_of_Inr Delete_lock_state intro!: kept_or_gone_eq)
    then show ?thesis
      by (rule kg) (simp_all add: ReqDelete enqueued_by_def dequeued_by_def
                      releases_on_def granted_generation_def)
  next
    case (ReqOpen sid nm flags em)
    with assms obtain r where "Open env st sid nm flags em = Inr (st', r)"
      by (auto dest!: state_of_Inr)
    from Open_lock_state [OF this, of k] show ?thesis
      by (auto simp: ReqOpen enqueued_by_def dequeued_by_def releases_on_def
                     granted_generation_def split: option.splits)
  next
    case (ReqClose sid h)
    with assms have "kept_or_gone st st'"
      by (auto dest!: state_of_Inr Close_lock_state)
    then show ?thesis
      by (rule kg) (simp_all add: ReqClose enqueued_by_def dequeued_by_def
                      releases_on_def granted_generation_def)
  next
    case (ReqAttrSet sid h nm v)
    with assms have "kept_or_gone st st'"
      by (auto dest!: state_of_Inr AttrSet_lock_state intro!: kept_or_gone_eq)
    then show ?thesis
      by (rule kg) (simp_all add: ReqAttrSet enqueued_by_def dequeued_by_def
                      releases_on_def granted_generation_def)
  next
    case (ReqAttrGet sid h nm)
    with assms have "kept_or_gone st st'"
      by (auto dest!: state_of_Inr AttrGet_lock_state intro!: kept_or_gone_eq)
    then show ?thesis
      by (rule kg) (simp_all add: ReqAttrGet enqueued_by_def dequeued_by_def
                      releases_on_def granted_generation_def)
  next
    case (ReqAttrDel sid h nm)
    with assms have "kept_or_gone st st'"
      by (auto dest!: state_of_Inr AttrDel_lock_state intro!: kept_or_gone_eq)
    then show ?thesis
      by (rule kg) (simp_all add: ReqAttrDel enqueued_by_def dequeued_by_def
                      releases_on_def granted_generation_def)
  next
    case (ReqExists sid nm)
    with assms have "kept_or_gone st st'"
      by (auto dest!: state_of_Inr Exists_lock_state intro!: kept_or_gone_eq)
    then show ?thesis
      by (rule kg) (simp_all add: ReqExists enqueued_by_def dequeued_by_def
                      releases_on_def granted_generation_def)
  next
    case (ReqLock sid h mode t)
    with assms obtain r where L: "Lock env st sid h mode t = Inr (st', r)"
      by (auto dest!: state_of_Inr)
    have dq: "\<And>k'. dequeued_by st (ReqLock sid h mode t) k' = []"
      by (simp add: dequeued_by_def releases_on_def)
    have ro: "response_of (Lock env st sid h mode t) = Inr r"
      by (simp add: L response_of_def)
    from Lock_lock_state [OF L] show ?thesis
    proof (elim disjE conjE exE)
      fix hp nd
      assume r: "r = ResponseLock LOCK_STATUS_PENDING" and hp: "GetHandleData st h = Some hp"
        and nd: "mNodeMap st (node hp) = Some nd"
        and ls: "lock_state st' = (lock_state st)(node hp \<mapsto>
                      (pendingLockRequests nd @ [LockRequest h mode], lockGeneration nd))"
      show ?thesis
        using lock_state_Some [OF nd]
        by (cases "k = node hp")
           (auto simp: ls dq ReqLock enqueued_by_def granted_generation_def ro r hp
                       handle_node_def split: option.splits)
    next
      fix hp nd
      assume r: "r = ResponseLockGranted LOCK_STATUS_GRANTED (lockGeneration nd + 1)"
        and hp: "GetHandleData st h = Some hp"
        and nd: "mNodeMap st (node hp) = Some nd"
        and ls: "lock_state st' = (lock_state st)(node hp \<mapsto>
                      (pendingLockRequests nd, lockGeneration nd + 1))"
      show ?thesis
        using lock_state_Some [OF nd]
        by (cases "k = node hp")
           (auto simp: ls dq ReqLock enqueued_by_def granted_generation_def ro r hp
                       handle_node_def split: option.splits)
    next
      assume r: "\<forall>s g. r \<noteq> ResponseLockGranted s g" "r \<noteq> ResponseLock LOCK_STATUS_PENDING"
        and s: "st' = st"
      have "granted_generation env st rq k = None"
        using r by (cases r) (simp_all add: ReqLock granted_generation_def ro)
      moreover have "enqueued_by env st rq k = []"
        using r by (simp add: ReqLock enqueued_by_def ro)
      ultimately show ?thesis using dq s by (auto simp: ReqLock split: option.splits)
    qed
  next
    case (ReqRelease sid h)
    with assms obtain r where R: "Release env st sid h = Inr (st', r)"
      by (auto dest!: state_of_Inr)
    have en: "\<And>k'. enqueued_by env st (ReqRelease sid h) k' = []" by (simp add: enqueued_by_def)
    show ?thesis
    proof (cases "GetSessionData st sid = None \<or> GetHandleData st h = None")
      case True
      with R have "st' = st" by (auto simp: Release_def split: option.splits)
      moreover from True have "\<not> releases_on st rq k"
        by (auto simp: ReqRelease releases_on_def)
      ultimately show ?thesis
        by (auto simp: en dequeued_by_def granted_generation_def ReqRelease split: option.splits)
    next
      case False
      then obtain s hp where s: "GetSessionData st sid = Some s"
        and hp: "GetHandleData st h = Some hp" by auto
      from R s hp have RL: "ReleaseLock env st h default_waitForNotify = Inr st'"
        by (auto simp: Release_def split: sum.splits)
      note ho = GetHandleData_Some [OF hp, THEN conjunct1]
      from RL ho obtain nd where nd: "mNodeMap st (node hp) = Some nd"
        by (auto simp: ReleaseLock_def split: option.splits)
      note ls = ReleaseLock_lock_state [OF RL ho nd]
      have ro: "\<And>k'. releases_on st (ReqRelease sid h) k' = (locked hp \<and> node hp = k')"
        by (simp add: releases_on_def s hp)
      have na: "node_at (state_of (Release env st sid h)) k = mNodeMap st' k"
        using R by (simp add: node_at_def state_of_def)
      show ?thesis
      proof (cases "locked hp \<and> node hp = k")
        case True
        then have q: "queue_of st k = pendingLockRequests nd"
          using nd by (simp add: queue_of_def)
        from True ls have l': "lock_state st' k =
            Some (drop (length (dequeued (pendingLockRequests nd))) (pendingLockRequests nd),
                  lockGeneration nd + (if granted st (pendingLockRequests nd) = [] then 0 else 1))"
          by simp
        then obtain nd' where nd': "mNodeMap st' k = Some nd'"
          "lockGeneration nd' =
             lockGeneration nd + (if granted st (pendingLockRequests nd) = [] then 0 else 1)"
          by (auto simp: lock_state_def)
        have l: "lock_state st k = Some (pendingLockRequests nd, lockGeneration nd)"
          using lock_state_Some [OF nd] True by simp
        from True nd' show ?thesis
          by (simp add: l l' en dequeued_by_def ro q granted_generation_def ReqRelease na)
      next
        case False
        with ls have "lock_state st' k = lock_state st k" by auto
        with False show ?thesis
          by (auto simp: en dequeued_by_def ro granted_generation_def ReqRelease
                   split: option.splits)
      qed
    qed
  qed
qed


lemma step_queue_gone:
  "mNodeMap st' k = None \<Longrightarrow> queue_of st' k = []"
  by (simp add: queue_of_def)




lemma step_generation:
  assumes "step env st rq = Inr st'" and "mNodeMap st k = Some nd" and "mNodeMap st' k = Some nd'"
  shows "(case granted_generation env st rq k of
            None \<Rightarrow> lockGeneration nd' = lockGeneration nd
          | Some x \<Rightarrow> x = lockGeneration nd + 1 \<and> lockGeneration nd' = lockGeneration nd + 1)"
  using step_lock_state [OF assms(1), of k] assms(2,3)
  by (simp add: lock_state_def)

lemma registered_head: "registered_throughout k st reqs \<Longrightarrow> mNodeMap st k \<noteq> None"
  by (cases reqs) auto

lemma run_generations:
  "registered_throughout k st reqs \<Longrightarrow> mNodeMap st k = Some nd \<Longrightarrow>
   grant_generations k st reqs
     = map (\<lambda>i. lockGeneration nd + of_nat (Suc i)) [0..<length (grant_generations k st reqs)]
   \<and> (\<forall>st' nd'. run st reqs = Inr st' \<longrightarrow> mNodeMap st' k = Some nd' \<longrightarrow>
         lockGeneration nd' = lockGeneration nd + of_nat (length (grant_generations k st reqs)))"
proof (induction reqs arbitrary: st nd)
  case Nil
  then show ?case by simp
next
  case (Cons a reqs)
  obtain env rq where a: "a = (env, rq)" by (cases a)
  show ?case
  proof (cases "step env st rq")
    case (Inl f)
    with a show ?thesis by simp
  next
    case (Inr st1)
    from Cons.prems(1) a Inr have r1: "registered_throughout k st1 reqs" by simp
    from registered_head [OF r1] obtain nd1 where nd1: "mNodeMap st1 k = Some nd1" by auto
    note IH = Cons.IH [OF r1 nd1]
    note sg = step_generation [OF Inr Cons.prems(2) nd1]
    let ?n = "length (grant_generations k st1 reqs)"
    show ?thesis
    proof (cases "granted_generation env st rq k")
      case None
      with sg have g: "lockGeneration nd1 = lockGeneration nd" by simp
      from None a Inr have e: "grant_generations k st (a # reqs) = grant_generations k st1 reqs"
        by simp
      from IH g e a Inr show ?thesis by simp
    next
      case (Some x)
      with sg have g: "x = lockGeneration nd + 1" "lockGeneration nd1 = lockGeneration nd + 1"
        by simp_all
      from Some a Inr g have e: "grant_generations k st (a # reqs)
                                 = (lockGeneration nd + 1) # grant_generations k st1 reqs"
        by simp
      have m: "map (\<lambda>i. lockGeneration nd + of_nat (Suc i)) [0..<Suc ?n]
               = (lockGeneration nd + 1)
                 # map (\<lambda>i. lockGeneration nd + 1 + of_nat (Suc i)) [0..<?n]"
        by (simp add: map_upt_Suc del: upt_Suc add: ac_simps)
      from IH g have "grant_generations k st1 reqs
                      = map (\<lambda>i. lockGeneration nd + 1 + of_nat (Suc i)) [0..<?n]" by simp
      with e m have c1: "grant_generations k st (a # reqs)
           = map (\<lambda>i. lockGeneration nd + of_nat (Suc i))
               [0..<length (grant_generations k st (a # reqs))]"
        by simp
      have c2: "\<forall>st' nd'. run st (a # reqs) = Inr st' \<longrightarrow> mNodeMap st' k = Some nd' \<longrightarrow>
         lockGeneration nd' = lockGeneration nd + of_nat (length (grant_generations k st (a # reqs)))"
        using IH g e a Inr by (simp add: ac_simps)
      from c1 c2 show ?thesis by blast
    qed
  qed
qed

lemma generations_increasing:
  fixes g :: uint64
  assumes "unat g + n < 2 ^ 64"
  shows "sorted_wrt (<) (map (\<lambda>i. g + of_nat (Suc i)) [0..<n])"
proof -
  have u: "\<And>i. i < n \<Longrightarrow> unat (g + of_nat (Suc i)) = unat g + Suc i"
  proof -
    fix i assume "i < n"
    with assms have b: "unat g + Suc i < 2 ^ 64" by simp
    then have "Suc i < 2 ^ 64" by simp
    then have "unat (of_nat (Suc i) :: uint64) = Suc i"
      by (simp add: unat_of_nat take_bit_nat_eq_self del: of_nat_Suc)
    with b show "unat (g + of_nat (Suc i)) = unat g + Suc i"
      by (simp add: unat_word_ariths take_bit_nat_eq_self del: of_nat_Suc)
  qed
  show ?thesis
    by (auto simp: sorted_wrt_map sorted_wrt_iff_nth_less word_less_nat_alt u simp del: of_nat_Suc)
qed

lemma grant_loop_self:
  assumes "mNodeMap st key = Some nd" and "mode = LOCK_MODE_SHARED \<or> mode = LOCK_MODE_EXCLUSIVE"
    and "\<forall>n\<in>set ns. \<exists>p. handleObjs st n = Some p \<and> handleId p = n \<and> node p = key"
    and "hid \<in> set ns"
  shows "grant_loop st hid ns mode w = Inl AssertionFailed"
  using assms
proof (induction ns arbitrary: st nd)
  case Nil
  then show ?case by simp
next
  case (Cons n ns)
  from Cons.prems(3) obtain p where
    p: "handleObjs st n = Some p" "handleId p = n" "node p = key" by auto
  show ?case
  proof (cases "hid = n")
    case True
    with p show ?thesis by simp
  next
    case False
    with Cons.prems(4) have hs: "hid \<in> set ns" by simp
    from Cons.prems(1) p(3) have nd: "mNodeMap st (node p) = Some nd" by simp
    from LockHandleWithNotification_eq [OF p(1) nd Cons.prems(2), of w] obtain st1 where
      l: "LockHandleWithNotification st n mode w = Inr st1" and
      nm: "mNodeMap st1 = (mNodeMap st)(node p \<mapsto> grant_id mode (handleId p) nd)" and
      ho: "handleObjs st1 = (handleObjs st)(n \<mapsto> p\<lparr>locked := True\<rparr>)"
      by blast
    have k1: "mNodeMap st1 key = Some (grant_id mode n nd)" using nm p by simp
    have w1: "\<forall>m\<in>set ns. \<exists>q. handleObjs st1 m = Some q \<and> handleId q = m \<and> node q = key"
      using Cons.prems(3) ho p by auto
    from Cons.IH [OF k1 Cons.prems(2) w1 hs] False p l show ?thesis by simp
  qed
qed

lemma ReleaseLock_not_holder:
  assumes "handleObjs st h = Some hp" and "locked hp" and "mNodeMap st (node hp) = Some nd"
    and "\<not> holder hp nd"
  shows "ReleaseLock env st h w = Inl AssertionFailed"
  using assms by (auto simp: ReleaseLock_def holder_def split: if_splits)

lemma ReleaseLock_self:
  assumes ho: "handleObjs st h = Some hp" and lk: "locked hp"
    and nd: "mNodeMap st (node hp) = Some nd"
    and hd: "holder hp nd"
    and wr: "sys_fsetxattr_u64 env (fd nd) ''lock.generation'' (lockGeneration nd + 1) = None"
    and wf: "\<forall>n\<in>set (granted st (pendingLockRequests nd)).
               \<forall>p. handleObjs st n = Some p \<longrightarrow> handleId p = n \<and> node p = node hp"
    and self: "handleId hp \<in> set (granted st (pendingLockRequests nd))"
    and hid: "handleId hp = h"
  shows "ReleaseLock env st h w = Inl AssertionFailed"
proof -
  define key where "key = node hp"
  define q where "q = pendingLockRequests nd"
  define nd1 where "nd1 = released hp nd"
  define st1 where "st1 = (put_node key nd1 st)
                             \<lparr>handleObjs := (handleObjs st)(h \<mapsto> hp\<lparr>locked := False\<rparr>)\<rparr>"
  define st2 where "st2 = (if sharedLockHandles nd1 = {}
                            then emit st1 nd1 EventLockReleased w else st1)"
  define nd2 where "nd2 = nd1\<lparr>currentLockMode := 0\<rparr>"
  define st3 where "st3 = put_node key nd2 st2"
  define rest where "rest = drop (length (dequeued q)) q"
  define gs where "gs = granted st q"
  define nm where "nm = next_mode q"
  have R: "ReleaseLock env st h w = release_grant env st3 (hp\<lparr>locked := False\<rparr>) nd2 w"
    using ho lk nd hd
    by (auto simp: ReleaseLock_def Let_def released_def key_def nd1_def st1_def st2_def
                   nd2_def st3_def holder_def split: if_splits)
  have h3: "handleObjs st3 = (handleObjs st)(h \<mapsto> hp\<lparr>locked := False\<rparr>)"
    by (simp add: st3_def st2_def st1_def)
  have t3: "mHandleMap st3 = mHandleMap st"
    by (simp add: st3_def st2_def st1_def)
  have q2: "pendingLockRequests nd2 = q" by (simp add: nd2_def nd1_def q_def)
  have "live st3 = live st"
    by (rule live_cong) (use t3 h3 ho in auto)
  then have g3: "granted st3 q = gs" by (simp add: granted_def gs_def)
  have dq: "dequeue_pending st3 q = (nm, gs, rest)"
    by (simp add: dequeue_pending_eq g3 nm_def rest_def)
  from self have gne: "gs \<noteq> []" by (auto simp: gs_def q_def)
  then have qne: "q \<noteq> []" by (auto simp: gs_def granted_def dequeued_def)
  define ndg where "ndg = nd2\<lparr>pendingLockRequests := rest,
                              lockGeneration := lockGeneration nd + 1, currentLockMode := nm\<rparr>"
  define stg where "stg = put_node key ndg st3"
  have kg: "mNodeMap stg key = Some ndg" by (simp add: stg_def)
  have mg: "nm = LOCK_MODE_SHARED \<or> nm = LOCK_MODE_EXCLUSIVE"
    using qne by (simp add: nm_def next_mode_cases)
  have live_obj: "\<And>n. n \<in> set gs \<Longrightarrow> \<exists>p. handleObjs st n = Some p"
    by (auto simp: gs_def granted_def live_def GetHandleData_def split: if_splits)
  have wg: "\<forall>n\<in>set gs. \<exists>p. handleObjs stg n = Some p \<and> handleId p = n \<and> node p = key"
  proof
    fix n assume n: "n \<in> set gs"
    from live_obj [OF n] obtain p where p: "handleObjs st n = Some p" by blast
    from wf n p have "handleId p = n \<and> node p = node hp" by (simp add: gs_def q_def)
    with p hid show "\<exists>p. handleObjs stg n = Some p \<and> handleId p = n \<and> node p = key"
      by (cases "n = h") (simp_all add: stg_def h3 key_def)
  qed
  have sg: "handleId (hp\<lparr>locked := False\<rparr>) \<in> set gs" using self by (simp add: gs_def q_def)
  note g = grant_loop_self [OF kg mg wg sg, of w]
  have w2: "sys_fsetxattr_u64 env (fd (nd2\<lparr>pendingLockRequests := rest\<rparr>)) ''lock.generation''
                (lockGeneration (nd2\<lparr>pendingLockRequests := rest\<rparr>) + 1) = None"
    using wr by (simp add: nd2_def nd1_def)
  have "release_grant env st3 (hp\<lparr>locked := False\<rparr>) nd2 w = Inl AssertionFailed"
    using qne q2 dq gne w2 g
    by (simp add: release_grant_def Let_def key_def stg_def ndg_def nd2_def nd1_def)
  with R show ?thesis by simp
qed

lemma queued_on_wf:
  "queued_on st hp ns \<Longrightarrow>
   \<forall>n\<in>set ns. \<forall>p. handleObjs st n = Some p \<longrightarrow> handleId p = n \<and> node p = node hp"
  by (auto simp: queued_on_def list_all_iff split: option.splits)

lemma ReleaseLock_total:
  assumes ho: "handleObjs st h = Some hp" and hid: "handleId hp = h" and lk: "locked hp"
    and nd: "mNodeMap st (node hp) = Some nd"
    and qo: "queued_on st hp (granted st (pendingLockRequests nd))"
  shows "if \<not> holder hp nd then ReleaseLock env st h w = Inl AssertionFailed
         else if granted st (pendingLockRequests nd) = [] then
           \<exists>st'. ReleaseLock env st h w = Inr st'
             \<and> mNodeMap st' = (mNodeMap st)(node hp \<mapsto> after_release st hp nd)
             \<and> handleObjs st' = (handleObjs st)(h \<mapsto> hp\<lparr>locked := False\<rparr>)
         else
           (case sys_fsetxattr_u64 env (fd nd) ''lock.generation'' (lockGeneration nd + 1) of
              Some e \<Rightarrow> ReleaseLock env st h w = Inl ProcessExit
            | None \<Rightarrow>
                if h \<in> set (granted st (pendingLockRequests nd))
                then ReleaseLock env st h w = Inl AssertionFailed
                else
                  \<exists>st'. ReleaseLock env st h w = Inr st'
                    \<and> mNodeMap st' = (mNodeMap st)(node hp \<mapsto> after_release st hp nd)
                    \<and> (\<forall>m. handleObjs st' m =
                          (if m \<in> set (granted st (pendingLockRequests nd))
                           then map_option (\<lambda>p. p\<lparr>locked := True\<rparr>) (handleObjs st m)
                           else ((handleObjs st)(h \<mapsto> hp\<lparr>locked := False\<rparr>)) m))
                    \<and> (\<forall>n\<in>set (granted st (pendingLockRequests nd)).
                          \<forall>p. handleObjs st n = Some p \<longrightarrow>
                              sessionPtr p \<in> dom (mSessionMap st) \<longrightarrow>
                              (\<exists>i. notified st' (sessionPtr p)
                                     (Notification n
                                        (EventLockGranted i (next_mode (pendingLockRequests nd))
                                           (lockGeneration nd + 1))))))"
proof (cases "holder hp nd")
  case False
  with ReleaseLock_not_holder [OF ho lk nd False] show ?thesis by simp
next
  case True
  then have ex: "exclusiveLockHandle nd \<noteq> 0 \<longrightarrow> handleId hp = exclusiveLockHandle nd"
    and sh: "exclusiveLockHandle nd = 0 \<longrightarrow> handleId hp \<in> sharedLockHandles nd"
    by (auto simp: holder_def split: if_splits)
  note wf0 = queued_on_wf [OF qo]
  let ?gs = "granted st (pendingLockRequests nd)"
  show ?thesis
  proof (cases "?gs = []")
    case e: True
    then have wr: "?gs \<noteq> [] \<longrightarrow>
             sys_fsetxattr_u64 env (fd nd) ''lock.generation'' (lockGeneration nd + 1) = None"
      by simp
    have wf: "\<forall>n\<in>set ?gs. \<forall>p. handleObjs st n = Some p \<longrightarrow>
                   handleId p = n \<and> node p = node hp \<and> n \<noteq> handleId hp \<and> n \<noteq> h"
      using e by simp
    from ReleaseLock_effect [OF ho lk nd ex sh wr wf, of w] obtain st' where
      R: "ReleaseLock env st h w = Inr st'" and
      M: "mNodeMap st' = (mNodeMap st)(node hp \<mapsto> after_release st hp nd)" and
      H: "\<forall>m. handleObjs st' m =
              (if m \<in> set ?gs then map_option (\<lambda>p. p\<lparr>locked := True\<rparr>) (handleObjs st m)
               else ((handleObjs st)(h \<mapsto> hp\<lparr>locked := False\<rparr>)) m)"
      by blast
    from H e have "handleObjs st' = (handleObjs st)(h \<mapsto> hp\<lparr>locked := False\<rparr>)"
      by (intro ext) simp
    with R M True e show ?thesis by simp
  next
    case ne: False
    show ?thesis
    proof (cases "sys_fsetxattr_u64 env (fd nd) ''lock.generation'' (lockGeneration nd + 1)")
      case (Some e)
      from ReleaseLock_exit [OF ho lk nd True ne Some, of w] True ne Some show ?thesis by simp
    next
      case None
      show ?thesis
      proof (cases "h \<in> set ?gs")
        case s: True
        then have "handleId hp \<in> set ?gs" using hid by simp
        from ReleaseLock_self [OF ho lk nd True None wf0 this hid, of w] True ne None s
        show ?thesis by simp
      next
        case ns: False
        have wr: "?gs \<noteq> [] \<longrightarrow>
             sys_fsetxattr_u64 env (fd nd) ''lock.generation'' (lockGeneration nd + 1) = None"
          using None by simp
        have wf: "\<forall>n\<in>set ?gs. \<forall>p. handleObjs st n = Some p \<longrightarrow>
                   handleId p = n \<and> node p = node hp \<and> n \<noteq> handleId hp \<and> n \<noteq> h"
          using wf0 ns hid by auto
        from ReleaseLock_effect [OF ho lk nd ex sh wr wf, of w] obtain st' where
          "ReleaseLock env st h w = Inr st'"
          "mNodeMap st' = (mNodeMap st)(node hp \<mapsto> after_release st hp nd)"
          "\<forall>m. handleObjs st' m =
              (if m \<in> set ?gs then map_option (\<lambda>p. p\<lparr>locked := True\<rparr>) (handleObjs st m)
               else ((handleObjs st)(h \<mapsto> hp\<lparr>locked := False\<rparr>)) m)"
          "\<forall>n\<in>set ?gs. \<forall>p. handleObjs st n = Some p \<longrightarrow>
              sessionPtr p \<in> dom (mSessionMap st) \<longrightarrow>
              (\<exists>i. notified st' (sessionPtr p)
                     (Notification n (EventLockGranted i (next_mode (pendingLockRequests nd))
                                        (lockGeneration nd + 1))))"
          by blast
        with True ne None ns show ?thesis by auto
      qed
    qed
  qed
qed




section \<open>The lock generation\<close>

text \<open>
  C5, as stated: every successful grant increments the generation by one, so the
  generations that grants observe are strictly increasing. In the run \<open>shared_batch\<close>
  the release of handle 2 grants the shared lock to handles 3 and 4 in one drain: the
  generation goes from 2 to 3 once, and both LOCK_GRANTED notifications carry 3. In the
  run \<open>ephemeral_relock\<close> the two grants on \<^verbatim>\<open>/x\<close> both observe generation 2: the node
  is removed when its only handle is closed, and the node created by the next
  \<^verbatim>\<open>open\<close> starts at generation 1 again.
\<close>

theorem grants_observe_equal_generations:
  "map_option lockGeneration (node_at (run (init_master 1000) shared_batch) ''/a'') = Some 2
   \<and> map_option lockGeneration
        (node_at (run (init_master 1000) (shared_batch @ [(ok_sys, ReqRelease 1 2)])) ''/a'')
      = Some 3
   \<and> map_option (\<lambda>s. granted_generations (notifications s))
        (mSessionMap (state_or (init_master 1000)
           (run (init_master 1000) (shared_batch @ [(ok_sys, ReqRelease 1 2)]))) 1)
      = Some [(3, 3), (4, 3)]
   \<and> grant_generations ''/x'' (init_master 1000) ephemeral_relock = [2, 2]
   \<and> map_option lockGeneration (node_at (run (init_master 1000) ephemeral_relock) ''/x'')
      = Some 2"
  by code_simp

lemma lock_acquire_exit:
  "sys_fsetxattr_u64 env (fd nd) ''lock.generation'' (lockGeneration nd + 1) = Some e \<Longrightarrow>
   lock_acquire env st h hp nd mode = Inl ProcessExit"
  by (simp add: lock_acquire_def Let_def)

lemma Lock_grant_branch:
  assumes "GetSessionData st sid \<noteq> None" and "GetHandleData st h = Some hp"
    and "openFlags hp AND OPEN_FLAG_LOCK \<noteq> 0" and "openFlags hp AND OPEN_FLAG_WRITE \<noteq> 0"
    and "mNodeMap st (node hp) = Some nd"
    and "mode = LOCK_MODE_SHARED \<or> mode = LOCK_MODE_EXCLUSIVE"
    and "currentLockMode nd = 0
         \<or> (currentLockMode nd = LOCK_MODE_SHARED \<and> mode = LOCK_MODE_SHARED
             \<and> pendingLockRequests nd = [])"
  shows "Lock env st sid h mode t = lock_acquire env st h hp nd mode"
proof -
  from assms(1) obtain s where "GetSessionData st sid = Some s" by auto
  with assms(2-7) show ?thesis by (auto simp: Lock_def lock_mode_defs)
qed

lemma Lock_grant_generation:
  assumes "GetSessionData st sid \<noteq> None" and "GetHandleData st h = Some hp"
    and "openFlags hp AND OPEN_FLAG_LOCK \<noteq> 0" and "openFlags hp AND OPEN_FLAG_WRITE \<noteq> 0"
    and "mNodeMap st (node hp) = Some nd"
    and "mode = LOCK_MODE_SHARED \<or> mode = LOCK_MODE_EXCLUSIVE"
    and "currentLockMode nd = 0
         \<or> (currentLockMode nd = LOCK_MODE_SHARED \<and> mode = LOCK_MODE_SHARED
             \<and> pendingLockRequests nd = [])"
  shows "case sys_fsetxattr_u64 env (fd nd) ''lock.generation'' (lockGeneration nd + 1) of
           Some e \<Rightarrow> Lock env st sid h mode t = Inl ProcessExit
         | None \<Rightarrow>
             \<exists>st' nd'. Lock env st sid h mode t =
                  Inr (st', ResponseLockGranted LOCK_STATUS_GRANTED (lockGeneration nd + 1))
                \<and> mNodeMap st' (node hp) = Some nd'
                \<and> lockGeneration nd' = lockGeneration nd + 1"
proof (cases "sys_fsetxattr_u64 env (fd nd) ''lock.generation'' (lockGeneration nd + 1)")
  case None
  from lock_acquire_granted [OF GetHandleData_Some [OF assms(2), THEN conjunct1] assms(5,6) None]
  obtain st' where
    "lock_acquire env st h hp nd mode
       = Inr (st', ResponseLockGranted LOCK_STATUS_GRANTED (lockGeneration nd + 1))"
    "mNodeMap st' = (mNodeMap st)(node hp \<mapsto>
               (if mode = LOCK_MODE_SHARED
                then nd\<lparr>lockGeneration := lockGeneration nd + 1, currentLockMode := mode,
                        sharedLockHandles := insert (handleId hp) (sharedLockHandles nd)\<rparr>
                else nd\<lparr>lockGeneration := lockGeneration nd + 1, currentLockMode := mode,
                        exclusiveLockHandle := handleId hp\<rparr>))"
    by blast
  with None Lock_grant_branch [OF assms, of env t] show ?thesis by auto
next
  case (Some e)
  with lock_acquire_exit [OF Some] Lock_grant_branch [OF assms, of env t] show ?thesis by simp
qed

lemma ReleaseLock_generation:
  assumes "handleObjs st h = Some hp" and "handleId hp = h" and "locked hp"
    and "mNodeMap st (node hp) = Some nd"
    and "queued_on st hp (granted st (pendingLockRequests nd))"
  shows "if \<not> holder hp nd then ReleaseLock env st h w = Inl AssertionFailed
         else if granted st (pendingLockRequests nd) = [] then
           \<exists>st' nd'. ReleaseLock env st h w = Inr st' \<and> mNodeMap st' (node hp) = Some nd'
              \<and> lockGeneration nd' = lockGeneration nd
         else
           (case sys_fsetxattr_u64 env (fd nd) ''lock.generation'' (lockGeneration nd + 1) of
              Some e \<Rightarrow> ReleaseLock env st h w = Inl ProcessExit
            | None \<Rightarrow>
                if h \<in> set (granted st (pendingLockRequests nd))
                then ReleaseLock env st h w = Inl AssertionFailed
                else
                  \<exists>st' nd'. ReleaseLock env st h w = Inr st' \<and> mNodeMap st' (node hp) = Some nd'
                    \<and> lockGeneration nd' = lockGeneration nd + 1
                    \<and> (\<forall>n\<in>set (granted st (pendingLockRequests nd)).
                         \<forall>p. handleObjs st n = Some p \<longrightarrow>
                             sessionPtr p \<in> dom (mSessionMap st) \<longrightarrow>
                             (\<exists>i. notified st' (sessionPtr p)
                                    (Notification n
                                       (EventLockGranted i (next_mode (pendingLockRequests nd))
                                          (lockGeneration nd + 1))))))"
proof -
  note T = ReleaseLock_total [OF assms, of env w]
  have g: "mNodeMap st' = (mNodeMap st)(node hp \<mapsto> after_release st hp nd) \<Longrightarrow>
           mNodeMap st' (node hp) = Some (after_release st hp nd)
           \<and> lockGeneration (after_release st hp nd)
               = (if granted st (pendingLockRequests nd) = [] then lockGeneration nd
                  else lockGeneration nd + 1)" for st' :: master
    by (simp add: after_release_fields)
  show ?thesis
  proof (cases "holder hp nd")
    case False
    with T show ?thesis by simp
  next
    case hd: True
    show ?thesis
    proof (cases "granted st (pendingLockRequests nd) = []")
      case True
      with T hd obtain st' where "ReleaseLock env st h w = Inr st'"
        "mNodeMap st' = (mNodeMap st)(node hp \<mapsto> after_release st hp nd)" by auto
      with g [OF this(2)] True hd show ?thesis by auto
    next
      case ne: False
      show ?thesis
      proof (cases "sys_fsetxattr_u64 env (fd nd) ''lock.generation'' (lockGeneration nd + 1)")
        case (Some e)
        with T hd ne show ?thesis by simp
      next
        case None
        show ?thesis
        proof (cases "h \<in> set (granted st (pendingLockRequests nd))")
          case True
          with T hd ne None show ?thesis by simp
        next
          case False
          with T hd ne None obtain st' where
            R: "ReleaseLock env st h w = Inr st'" and
            M: "mNodeMap st' = (mNodeMap st)(node hp \<mapsto> after_release st hp nd)" and
            N: "\<forall>n\<in>set (granted st (pendingLockRequests nd)).
                  \<forall>p. handleObjs st n = Some p \<longrightarrow>
                      sessionPtr p \<in> dom (mSessionMap st) \<longrightarrow>
                      (\<exists>i. notified st' (sessionPtr p)
                             (Notification n
                                (EventLockGranted i (next_mode (pendingLockRequests nd))
                                   (lockGeneration nd + 1))))"
            by (simp, blast)
          from g [OF M] ne have "mNodeMap st' (node hp) = Some (after_release st hp nd)
            \<and> lockGeneration (after_release st hp nd) = lockGeneration nd + 1" by simp
          with R N hd ne None False show ?thesis by auto
        qed
      qed
    qed
  qed
qed

text \<open>
  C5, amended. Every granting step increments the node's generation by exactly one
  (in 64-bit arithmetic) and goes on only when the new value was written. A \<^verbatim>\<open>lock\<close>
  that grants answers GRANTED with the new generation. A release by the holder (every
  handle to be granted being an object filed under its own id that points to the node)
  whose drain grants at least one handle increments once for the whole batch, and every
  handle of the batch is sent LOCK_GRANTED with that one new generation; a release
  that grants nothing leaves the generation as it is; a release by a locked handle that
  is not the holder, or whose own request is among those to be granted, ends in a
  failed assertion. If the write of \<^verbatim>\<open>lock.generation\<close> fails the process exits, in
  \<^verbatim>\<open>lock\<close> and in \<^verbatim>\<open>release\<close>.

  Across requests: a request that finds the node in the node map and leaves it there
  changes the node's generation only if it is a granting step on the node, which adds
  one and observes the new value. So over any run of requests during which the node
  stays in the node map, the \<open>i\<close>-th granting step on the node observes the generation
  at the start plus \<open>i\<close>, and as long as the 64-bit counter does not wrap around the
  generations observed are strictly increasing.
\<close>

theorem grant_step_increments_generation:
  "(GetSessionData st sid \<noteq> None \<and> GetHandleData st h = Some hp
      \<and> openFlags hp AND OPEN_FLAG_LOCK \<noteq> 0 \<and> openFlags hp AND OPEN_FLAG_WRITE \<noteq> 0
      \<and> mNodeMap st (node hp) = Some nd
      \<and> (mode = LOCK_MODE_SHARED \<or> mode = LOCK_MODE_EXCLUSIVE)
      \<and> (currentLockMode nd = 0
          \<or> (currentLockMode nd = LOCK_MODE_SHARED \<and> mode = LOCK_MODE_SHARED
              \<and> pendingLockRequests nd = []))
    \<longrightarrow> (case sys_fsetxattr_u64 env (fd nd) ''lock.generation'' (lockGeneration nd + 1) of
           Some e \<Rightarrow> Lock env st sid h mode t = Inl ProcessExit
         | None \<Rightarrow>
             \<exists>st' nd'. Lock env st sid h mode t =
                  Inr (st', ResponseLockGranted LOCK_STATUS_GRANTED (lockGeneration nd + 1))
                \<and> mNodeMap st' (node hp) = Some nd'
                \<and> lockGeneration nd' = lockGeneration nd + 1))
   \<and> (handleObjs st h = Some hp \<and> handleId hp = h \<and> locked hp
      \<and> mNodeMap st (node hp) = Some nd
      \<and> queued_on st hp (granted st (pendingLockRequests nd))
    \<longrightarrow> (if \<not> holder hp nd then ReleaseLock env st h w = Inl AssertionFailed
         else if granted st (pendingLockRequests nd) = [] then
           \<exists>st' nd'. ReleaseLock env st h w = Inr st' \<and> mNodeMap st' (node hp) = Some nd'
              \<and> lockGeneration nd' = lockGeneration nd
         else
           (case sys_fsetxattr_u64 env (fd nd) ''lock.generation'' (lockGeneration nd + 1) of
              Some e \<Rightarrow> ReleaseLock env st h w = Inl ProcessExit
            | None \<Rightarrow>
                if h \<in> set (granted st (pendingLockRequests nd))
                then ReleaseLock env st h w = Inl AssertionFailed
                else
                  \<exists>st' nd'. ReleaseLock env st h w = Inr st' \<and> mNodeMap st' (node hp) = Some nd'
                    \<and> lockGeneration nd' = lockGeneration nd + 1
                    \<and> (\<forall>n\<in>set (granted st (pendingLockRequests nd)).
                         \<forall>p. handleObjs st n = Some p \<longrightarrow>
                             sessionPtr p \<in> dom (mSessionMap st) \<longrightarrow>
                             (\<exists>i. notified st' (sessionPtr p)
                                    (Notification n
                                       (EventLockGranted i (next_mode (pendingLockRequests nd))
                                          (lockGeneration nd + 1))))))))
   \<and> (step env st rq = Inr st1 \<and> mNodeMap st k = Some nd0 \<and> mNodeMap st1 k = Some nd1
    \<longrightarrow> (case granted_generation env st rq k of
           None \<Rightarrow> lockGeneration nd1 = lockGeneration nd0
         | Some g \<Rightarrow> g = lockGeneration nd0 + 1 \<and> lockGeneration nd1 = lockGeneration nd0 + 1))
   \<and> (registered_throughout k st reqs \<and> mNodeMap st k = Some nd0
    \<longrightarrow> grant_generations k st reqs
          = map (\<lambda>i. lockGeneration nd0 + of_nat (Suc i))
              [0..<length (grant_generations k st reqs)]
        \<and> (unat (lockGeneration nd0) + length (grant_generations k st reqs) < 2 ^ 64
           \<longrightarrow> sorted_wrt (<) (grant_generations k st reqs)))"
proof (intro conjI impI)
  assume "GetSessionData st sid \<noteq> None \<and> GetHandleData st h = Some hp
      \<and> openFlags hp AND OPEN_FLAG_LOCK \<noteq> 0 \<and> openFlags hp AND OPEN_FLAG_WRITE \<noteq> 0
      \<and> mNodeMap st (node hp) = Some nd
      \<and> (mode = LOCK_MODE_SHARED \<or> mode = LOCK_MODE_EXCLUSIVE)
      \<and> (currentLockMode nd = 0
          \<or> (currentLockMode nd = LOCK_MODE_SHARED \<and> mode = LOCK_MODE_SHARED
              \<and> pendingLockRequests nd = []))"
  then show "case sys_fsetxattr_u64 env (fd nd) ''lock.generation'' (lockGeneration nd + 1) of
           Some e \<Rightarrow> Lock env st sid h mode t = Inl ProcessExit
         | None \<Rightarrow>
             \<exists>st' nd'. Lock env st sid h mode t =
                  Inr (st', ResponseLockGranted LOCK_STATUS_GRANTED (lockGeneration nd + 1))
                \<and> mNodeMap st' (node hp) = Some nd'
                \<and> lockGeneration nd' = lockGeneration nd + 1"
    using Lock_grant_generation [of st sid h hp nd mode env t] by blast
next
  assume "handleObjs st h = Some hp \<and> handleId hp = h \<and> locked hp
      \<and> mNodeMap st (node hp) = Some nd
      \<and> queued_on st hp (granted st (pendingLockRequests nd))"
  then show "if \<not> holder hp nd then ReleaseLock env st h w = Inl AssertionFailed
         else if granted st (pendingLockRequests nd) = [] then
           \<exists>st' nd'. ReleaseLock env st h w = Inr st' \<and> mNodeMap st' (node hp) = Some nd'
              \<and> lockGeneration nd' = lockGeneration nd
         else
           (case sys_fsetxattr_u64 env (fd nd) ''lock.generation'' (lockGeneration nd + 1) of
              Some e \<Rightarrow> ReleaseLock env st h w = Inl ProcessExit
            | None \<Rightarrow>
                if h \<in> set (granted st (pendingLockRequests nd))
                then ReleaseLock env st h w = Inl AssertionFailed
                else
                  \<exists>st' nd'. ReleaseLock env st h w = Inr st' \<and> mNodeMap st' (node hp) = Some nd'
                    \<and> lockGeneration nd' = lockGeneration nd + 1
                    \<and> (\<forall>n\<in>set (granted st (pendingLockRequests nd)).
                         \<forall>p. handleObjs st n = Some p \<longrightarrow>
                             sessionPtr p \<in> dom (mSessionMap st) \<longrightarrow>
                             (\<exists>i. notified st' (sessionPtr p)
                                    (Notification n
                                       (EventLockGranted i (next_mode (pendingLockRequests nd))
                                          (lockGeneration nd + 1))))))"
    using ReleaseLock_generation [of st h hp nd env w] by blast
next
  assume "step env st rq = Inr st1 \<and> mNodeMap st k = Some nd0 \<and> mNodeMap st1 k = Some nd1"
  then show "case granted_generation env st rq k of
           None \<Rightarrow> lockGeneration nd1 = lockGeneration nd0
         | Some g \<Rightarrow> g = lockGeneration nd0 + 1 \<and> lockGeneration nd1 = lockGeneration nd0 + 1"
    using step_generation [of env st rq st1 k nd0 nd1] by blast
next
  assume a: "registered_throughout k st reqs \<and> mNodeMap st k = Some nd0"
  then show e: "grant_generations k st reqs
          = map (\<lambda>i. lockGeneration nd0 + of_nat (Suc i))
              [0..<length (grant_generations k st reqs)]"
    using run_generations [of k st reqs nd0] by blast
  assume "unat (lockGeneration nd0) + length (grant_generations k st reqs) < 2 ^ 64"
  from generations_increasing [OF this]
  show "sorted_wrt (<) (grant_generations k st reqs)"
    using e by simp
qed

theorem grant_step_increments_generation_witness:
  "response_of (Lock ok_sys lock_free 1 2 LOCK_MODE_SHARED False)
     = Inr (ResponseLockGranted LOCK_STATUS_GRANTED 2)
   \<and> Lock generation_write_fails lock_free 1 2 LOCK_MODE_SHARED False = Inl ProcessExit
   \<and> map_option lockGeneration (node_at (ReleaseLock ok_sys shared_queue 2 True) ''/a'') = Some 3
   \<and> ReleaseLock generation_write_fails shared_queue 2 True = Inl ProcessExit
   \<and> map_option lockGeneration (node_at (step ok_sys lock_free (ReqAttrGet 1 2 ''k'')) ''/a'')
       = Some 1
   \<and> grant_generations ''/a'' lock_free grant_run = [2, 3, 4]
   \<and> sorted_wrt (<) (grant_generations ''/a'' lock_free grant_run)"
proof -
  let ?h2 = "\<lparr>handleId = 2, node = ''/a'', openFlags = OPEN_FLAG_LOCK OR OPEN_FLAG_WRITE,
            eventMask = 0, sessionPtr = 1, locked = False\<rparr>"
  let ?n = "\<lparr>name = ''/a'', fd = 3, lockGeneration = 1, currentLockMode = 0,
            sharedLockHandles = {}, exclusiveLockHandle = 0, pendingLockRequests = [],
            handleMap = [2], ephemeral = False\<rparr>"
  let ?hp = "\<lparr>handleId = 2, node = ''/a'', openFlags = OPEN_FLAG_LOCK OR OPEN_FLAG_WRITE,
            eventMask = 0, sessionPtr = 1, locked = True\<rparr>"
  let ?s = "\<lparr>name = ''/a'', fd = 3, lockGeneration = 2, currentLockMode = LOCK_MODE_EXCLUSIVE,
            sharedLockHandles = {}, exclusiveLockHandle = 2,
            pendingLockRequests = [LockRequest 3 LOCK_MODE_SHARED, LockRequest 4 LOCK_MODE_SHARED,
                                   LockRequest 5 LOCK_MODE_EXCLUSIVE],
            handleMap = [2, 3, 4, 5], ephemeral = False\<rparr>"
  have n1: "GetSessionData lock_free 1 \<noteq> None" by code_simp
  have n2: "GetHandleData lock_free 2 = Some ?h2" by code_simp
  have n3: "mNodeMap lock_free (node ?h2) = Some ?n" by code_simp
  have fl: "openFlags ?h2 AND OPEN_FLAG_LOCK \<noteq> 0" "openFlags ?h2 AND OPEN_FLAG_WRITE \<noteq> 0"
    by (simp_all add: open_flag_defs)
  have lockhyp: "GetSessionData lock_free 1 \<noteq> None \<and> GetHandleData lock_free 2 = Some ?h2
      \<and> openFlags ?h2 AND OPEN_FLAG_LOCK \<noteq> 0 \<and> openFlags ?h2 AND OPEN_FLAG_WRITE \<noteq> 0
      \<and> mNodeMap lock_free (node ?h2) = Some ?n
      \<and> (LOCK_MODE_SHARED = LOCK_MODE_SHARED \<or> LOCK_MODE_SHARED = LOCK_MODE_EXCLUSIVE)
      \<and> (currentLockMode ?n = 0
          \<or> (currentLockMode ?n = LOCK_MODE_SHARED \<and> LOCK_MODE_SHARED = LOCK_MODE_SHARED
              \<and> pendingLockRequests ?n = []))"
    using n1 n2 n3 fl by simp
  have w1: "sys_fsetxattr_u64 ok_sys (fd ?n) ''lock.generation'' (lockGeneration ?n + 1) = None"
    by (simp add: ok_sys_def)
  have w2: "sys_fsetxattr_u64 generation_write_fails (fd ?n) ''lock.generation''
              (lockGeneration ?n + 1) = Some (EOTHER 5)"
    by (simp add: generation_write_fails_def ok_sys_def)
  from grant_step_increments_generation
         [where st = lock_free and sid = 1 and h = 2 and hp = ?h2 and nd = ?n
            and mode = LOCK_MODE_SHARED and env = ok_sys and t = False, THEN conjunct1]
       lockhyp w1
  obtain st' where "Lock ok_sys lock_free 1 2 LOCK_MODE_SHARED False
      = Inr (st', ResponseLockGranted LOCK_STATUS_GRANTED (lockGeneration ?n + 1))"
    by auto
  then have a: "response_of (Lock ok_sys lock_free 1 2 LOCK_MODE_SHARED False)
     = Inr (ResponseLockGranted LOCK_STATUS_GRANTED 2)"
    by (simp add: response_of_def)
  from grant_step_increments_generation
         [where st = lock_free and sid = 1 and h = 2 and hp = ?h2 and nd = ?n
            and mode = LOCK_MODE_SHARED and env = generation_write_fails and t = False,
          THEN conjunct1]
       lockhyp w2
  have b: "Lock generation_write_fails lock_free 1 2 LOCK_MODE_SHARED False = Inl ProcessExit"
    by auto
  have s1: "handleObjs shared_queue 2 = Some ?hp" by code_simp
  have s2: "mNodeMap shared_queue (node ?hp) = Some ?s" by code_simp
  have s3: "holder ?hp ?s" by code_simp
  have s5: "granted shared_queue (pendingLockRequests ?s) = [3, 4]" by code_simp
  have s6: "queued_on shared_queue ?hp [3, 4]" by code_simp
  have relhyp: "handleObjs shared_queue 2 = Some ?hp \<and> handleId ?hp = 2 \<and> locked ?hp
      \<and> mNodeMap shared_queue (node ?hp) = Some ?s
      \<and> queued_on shared_queue ?hp (granted shared_queue (pendingLockRequests ?s))"
    using s1 s2 s6 unfolding s5 by simp
  have w3: "sys_fsetxattr_u64 ok_sys (fd ?s) ''lock.generation'' (lockGeneration ?s + 1) = None"
    by (simp add: ok_sys_def)
  have w4: "sys_fsetxattr_u64 generation_write_fails (fd ?s) ''lock.generation''
              (lockGeneration ?s + 1) = Some (EOTHER 5)"
    by (simp add: generation_write_fails_def ok_sys_def)
  note C = grant_step_increments_generation
         [where st = shared_queue and h = 2 and hp = ?hp and nd = ?s and env = ok_sys
            and w = True, THEN conjunct2, THEN conjunct1, rule_format, OF relhyp, unfolded s5]
  from C s3 w3 obtain st'' nd'' where "ReleaseLock ok_sys shared_queue 2 True = Inr st''"
    "mNodeMap st'' (node ?hp) = Some nd''" "lockGeneration nd'' = lockGeneration ?s + 1"
    by (simp, blast)
  then have c: "map_option lockGeneration (node_at (ReleaseLock ok_sys shared_queue 2 True) ''/a'')
                  = Some 3"
    by (simp add: node_at_def)
  note D = grant_step_increments_generation
         [where st = shared_queue and h = 2 and hp = ?hp and nd = ?s
            and env = generation_write_fails and w = True,
          THEN conjunct2, THEN conjunct1, rule_format, OF relhyp, unfolded s5]
  from D s3 w4 have d: "ReleaseLock generation_write_fails shared_queue 2 True = Inl ProcessExit"
    by simp
  let ?rq = "ReqAttrGet 1 2 ''k''"
  have "\<not> isl (step ok_sys lock_free ?rq)" by code_simp
  from Inr_state_or [OF this, of lock_free]
  have t1: "step ok_sys lock_free ?rq = Inr (state_or lock_free (step ok_sys lock_free ?rq))" .
  have t2: "mNodeMap lock_free ''/a'' = Some ?n" by code_simp
  have "mNodeMap (state_or lock_free (step ok_sys lock_free ?rq)) ''/a'' \<noteq> None" by code_simp
  then obtain n1 where
    t3: "mNodeMap (state_or lock_free (step ok_sys lock_free ?rq)) ''/a'' = Some n1" by auto
  have t4: "granted_generation ok_sys lock_free ?rq ''/a'' = None" by code_simp
  from grant_step_increments_generation
         [where st = lock_free and env = ok_sys and rq = ?rq and k = "''/a''" and ?nd0.0 = ?n
            and ?st1.0 = "state_or lock_free (step ok_sys lock_free ?rq)" and ?nd1.0 = n1,
          THEN conjunct2, THEN conjunct2, THEN conjunct1, rule_format, OF conjI [OF t1 conjI [OF t2 t3]]]
  have "lockGeneration n1 = 1" unfolding t4 by simp
  with t3 have e: "map_option lockGeneration (node_at (step ok_sys lock_free ?rq) ''/a'') = Some 1"
    by (subst t1) (simp add: node_at_def)
  have g1: "registered_throughout ''/a'' lock_free grant_run" by code_simp
  have g2: "grant_generations ''/a'' lock_free grant_run = [2, 3, 4]" by code_simp
  have g3: "unat (lockGeneration ?n) + length (grant_generations ''/a'' lock_free grant_run)
            < 2 ^ 64" unfolding g2 by simp
  from grant_step_increments_generation
         [where st = lock_free and k = "''/a''" and reqs = grant_run and ?nd0.0 = ?n,
          THEN conjunct2, THEN conjunct2, THEN conjunct2, rule_format, OF conjI [OF g1 t2],
          THEN conjunct2, rule_format, OF g3]
  have f: "sorted_wrt (<) (grant_generations ''/a'' lock_free grant_run)" .
  from a b c d e g2 f show ?thesis by blast
qed

end
